theory Spec2Isabelle
  imports Main "HOL-Library.List_Lexorder" "HOL-Library.Sublist" "HOL-Library.AList"
begin

section \<open>Python strings\<close>

text \<open>
  A Python \<open>str\<close> is a sequence of code points; it is modelled as the list of their
  numbers, so that \<open>len\<close>, slices and \<open>sorted\<close> (the lexicographic order of the code
  points) are those of Python on every text. The fixed texts of the source are written
  with \<open>ascii\<close>, which turns a literal into the codes of its characters; the two symbols
  of the messages that are not ASCII are given by their code points.
\<close>

type_synonym str = "nat list"

definition ascii :: "string \<Rightarrow> str" where
  "ascii s = map of_char s"

definition CROSS_MARK :: str where
  \<comment> \<open>U+274C, the cross of the failure messages and of the second reaction\<close>
  "CROSS_MARK = [0x274C]"

definition CHECK_MARK :: str where
  \<comment> \<open>U+2705, the check mark of the first reaction\<close>
  "CHECK_MARK = [0x2705]"

definition startswith :: "str \<Rightarrow> str \<Rightarrow> bool" where
  \<comment> \<open>\<open>s.startswith(p)\<close>\<close>
  "startswith s p = prefix p s"

definition slice_from :: "str \<Rightarrow> nat \<Rightarrow> str" where
  \<comment> \<open>\<open>s[n:]\<close> for \<open>n \<ge> 0\<close>\<close>
  "slice_from s n = drop n s"

definition slice_to :: "str \<Rightarrow> int \<Rightarrow> str" where
  \<comment> \<open>\<open>s[:k]\<close>: a negative \<open>k\<close> counts from the end, and the bound is clamped to the string\<close>
  "slice_to s k =
     (if k < 0 then take (nat (int (length s) + k)) s else take (nat k) s)"

definition lstrip :: "str \<Rightarrow> str \<Rightarrow> str" where
  \<comment> \<open>\<open>s.lstrip(cs)\<close>: drops every leading character that occurs in \<open>cs\<close>\<close>
  "lstrip s cs = dropWhile (\<lambda>c. c \<in> set cs) s"

fun join :: "str \<Rightarrow> str list \<Rightarrow> str" where
  \<comment> \<open>\<open>sep.join(xs)\<close>\<close>
  "join sep [] = []"
| "join sep [x] = x"
| "join sep (x # y # ys) = x @ sep @ join sep (y # ys)"

fun split_on :: "nat \<Rightarrow> str \<Rightarrow> str list" where
  \<comment> \<open>\<open>s.split(c)\<close> for a one-character separator\<close>
  "split_on c [] = [[]]"
| "split_on c (x # xs) =
     (if x = c then [] # split_on c xs
      else (case split_on c xs of [] \<Rightarrow> [[x]] | w # ws \<Rightarrow> (x # w) # ws))"

section \<open>Configuration, plugin, events\<close>

definition MEETBOT_PREFIX :: str where
  "MEETBOT_PREFIX = ascii ''Text Log: ''"

definition LLM_PROMPT :: str where
  "LLM_PROMPT = ascii ''\<newline>    Give me the key discussion points and action items in this document as a bullet list.\<newline>    Do not add an introduction to your response.\<newline>    Use markdown formatting.\<newline>''"

definition RESPONSE_TEMPLATE :: "str \<Rightarrow> str \<Rightarrow> str" where
  \<comment> \<open>\<open>RESPONSE_TEMPLATE.format(members=members, summary=summary)\<close>\<close>
  "RESPONSE_TEMPLATE members summary =
     ascii ''Hello '' @ members
     @ ascii ''. Here's a short summary of the meeting:\<newline>\<newline>---\<newline>''
     @ summary
     @ ascii ''\<newline>---\<newline>\<newline>Does it look correct to you? If so, please click on ''
     @ CHECK_MARK @ ascii '', otherwise please click on '' @ CROSS_MARK
     @ ascii ''.\<newline>\<newline>(*this bot feature is in alpha stage, thanks for your patience*)\<newline>''"

datatype error = KeyError | TypeError | AttributeError | MeetingLogFetchingError str

record config =
  gemini_model :: str
  meetbot_id :: str
  ignored_participants :: "str list"
  meetings_directory :: "str option"

text \<open>The plugin instance: its loaded configuration and \<open>self.client.mxid\<close>.\<close>

record plugin =
  config :: config
  mxid :: str

datatype msgtype = TEXT | EMOTE | NOTICE | IMAGE | STICKER | VIDEO | AUDIO | FILE | LOCATION

record event =
  room_id :: str
  event_id :: str
  sender :: str
  msgtype :: msgtype
  body :: str

section \<open>Participant extraction\<close>

text \<open>
  The pattern of \<open>extract_usernames\<close> is
  \<^verbatim>\<open>\d{4}-\d\d-\d\d \d\d:\d\d:\d\d <(@[^>]+)> \<close>.
  Its head, up to and including \<open><\<close>, is a fixed sequence of digit classes and literal
  characters. The group is \<open>@\<close> followed by one or more characters other than \<open>>\<close>, and it
  must be followed by \<open>>\<close> and a space: since the group cannot contain \<open>>\<close>, the only extent
  at which the rest of the pattern can match is the maximal one, so the greedy search and
  its backtracking reduce to taking all characters before the next \<open>>\<close>.

  On a \<open>str\<close> the class \<open>\d\<close> is the decimal digits of the Unicode database of the
  interpreter. Among the ASCII characters these are \<open>0\<close> to \<open>9\<close>; which code points
  beyond ASCII are decimal digits is a table of the interpreter, taken as the parameter
  \<open>decimal\<close>.
\<close>

datatype item = Digit | Lit nat

definition is_digit :: "(nat \<Rightarrow> bool) \<Rightarrow> nat \<Rightarrow> bool" where
  "is_digit decimal c = (if c < 128 then 48 \<le> c \<and> c \<le> 57 else decimal c)"

fun match_items :: "(nat \<Rightarrow> bool) \<Rightarrow> item list \<Rightarrow> str \<Rightarrow> str option" where
  "match_items decimal [] s = Some s"
| "match_items decimal (i # is) [] = None"
| "match_items decimal (Digit # is) (c # s) =
     (if is_digit decimal c then match_items decimal is s else None)"
| "match_items decimal (Lit a # is) (c # s) =
     (if c = a then match_items decimal is s else None)"

definition pattern_head :: "item list" where
  "pattern_head =
     [Digit, Digit, Digit, Digit, Lit (of_char (CHR ''-'')), Digit, Digit,
      Lit (of_char (CHR ''-'')), Digit, Digit,
      Lit (of_char (CHR '' '')),
      Digit, Digit, Lit (of_char (CHR '':'')), Digit, Digit, Lit (of_char (CHR '':'')),
      Digit, Digit,
      Lit (of_char (CHR '' '')), Lit (of_char (CHR ''<''))]"

definition match_group :: "str \<Rightarrow> (str \<times> str) option" where
  \<comment> \<open>\<open>(@[^>]+)> \<close> at the start of \<open>s\<close>: the group and what follows the match\<close>
  "match_group s =
     (case s of
        [] \<Rightarrow> None
      | c # r \<Rightarrow>
          if c = of_char (CHR ''@'') then
            (let name = takeWhile (\<lambda>x. x \<noteq> of_char (CHR ''>'')) r;
                 rest = dropWhile (\<lambda>x. x \<noteq> of_char (CHR ''>'')) r
             in if name \<noteq> [] \<and> prefix (ascii ''> '') rest
                then Some (c # name, drop 2 rest) else None)
          else None)"

definition match_here :: "(nat \<Rightarrow> bool) \<Rightarrow> str \<Rightarrow> (str \<times> str) option" where
  \<comment> \<open>the pattern matched at the start of \<open>s\<close>\<close>
  "match_here decimal s =
     (case match_items decimal pattern_head s of None \<Rightarrow> None | Some r \<Rightarrow> match_group r)"

lemma match_items_length:
  "match_items decimal is s = Some r \<Longrightarrow> length r + length is = length s"
  by (induction decimal "is" s rule: match_items.induct) (auto split: if_splits)

lemma match_group_length: "match_group s = Some (u, r) \<Longrightarrow> length r < length s"
proof -
  assume a: "match_group s = Some (u, r)"
  then obtain c t where s: "s = c # t" by (cases s) (auto simp: match_group_def)
  from a s have "r = drop 2 (dropWhile (\<lambda>x. x \<noteq> of_char (CHR ''>'')) t)"
    by (auto simp: match_group_def Let_def split: if_splits)
  moreover have "length (dropWhile (\<lambda>x. x \<noteq> of_char (CHR ''>'')) t) \<le> length t"
    by (rule length_dropWhile_le)
  ultimately have "length r \<le> length t" by simp
  with s show ?thesis by simp
qed

lemma match_here_length: "match_here decimal s = Some (u, r) \<Longrightarrow> length r < length s"
  by (auto simp: match_here_def split: option.splits
      dest!: match_items_length match_group_length)

text \<open>
  \<open>re.findall\<close>: the text is scanned from left to right; a match contributes its group
  and the scan resumes after the match, otherwise it moves on by one character.
\<close>

function findall :: "(nat \<Rightarrow> bool) \<Rightarrow> str \<Rightarrow> str list" where
  "findall decimal [] = []"
| "findall decimal (c # s) =
     (case match_here decimal (c # s) of
        None \<Rightarrow> findall decimal s
      | Some (u, rest) \<Rightarrow> u # findall decimal rest)"
  by pat_completeness auto
termination
  by (relation "measure (\<lambda>(decimal, s). length s)") (auto dest: match_here_length)

definition set_remove :: "'a set \<Rightarrow> 'a \<Rightarrow> error + 'a set" where
  \<comment> \<open>\<open>set.remove\<close> raises KeyError when the element is absent\<close>
  "set_remove A x = (if x \<in> A then Inr (A - {x}) else Inl KeyError)"

definition suppress_KeyError :: "'a \<Rightarrow> error + 'a \<Rightarrow> error + 'a" where
  \<comment> \<open>\<open>with suppress(KeyError)\<close>: a KeyError leaves the state as it was, anything else passes\<close>
  "suppress_KeyError unchanged r =
     (case r of Inl KeyError \<Rightarrow> Inr unchanged | Inl e \<Rightarrow> Inl e | Inr v \<Rightarrow> Inr v)"

fun remove_ignored :: "str list \<Rightarrow> str set \<Rightarrow> error + str set" where
  \<comment> \<open>the loop over \<open>ignored_ids\<close>\<close>
  "remove_ignored [] usernames = Inr usernames"
| "remove_ignored (ignored_id # ids) usernames =
     (case suppress_KeyError usernames (set_remove usernames ignored_id) of
        Inl e \<Rightarrow> Inl e
      | Inr usernames' \<Rightarrow> remove_ignored ids usernames')"

section \<open>Collaborators and their calls\<close>

text \<open>
  A handler is modelled by the sequence of actions it performs, in order: the calls it
  makes to its collaborators (the room client, the HTTP session, the generative backend,
  the file system) and its log records. A log record keeps the level, the message
  template of the source (a placeholder for each formatted value) and the values.

  The answers of the collaborators come from an environment. It covers the outcomes the
  source distinguishes: the alias lookup returns the state content or raises
  \<open>MNotFound\<close>; the fetch returns the text, raises \<open>HTTPError\<close> or raises another
  exception (each carrying the text of \<open>str(e)\<close>); the backend returns a text or
  \<open>None\<close>. A call that fails in a way the source has no handler for ends the handler at
  that call; such runs are outside the model. \<open>urlparse(url).path\<close> of the standard
  library and the table of the decimal digits beyond ASCII are taken from the environment
  as well.
\<close>

datatype level = DEBUG | INFO | WARNING | EXCEPTION

datatype logarg = S str | N nat | L "str list"

datatype action =
    GetStateEvent str
  | MarkRead str
  | SetTyping str nat
  | HttpGet str
  | Reply str str
  | GenerateContent str str str
  | Respond str str bool
  | React str str str
  | Mkdir str
  | WriteText str str
  | Log level string "logarg list"

fun is_Log :: "action \<Rightarrow> bool" where
  "is_Log (Log l m as) = True"
| "is_Log a = False"

definition calls :: "action list \<Rightarrow> action list" where
  \<comment> \<open>the calls to collaborators, the log records left out\<close>
  "calls t = filter (\<lambda>a. \<not> is_Log a) t"

datatype alias_response = CanonicalAlias "str option" | MNotFound

datatype fetch_response = ResponseText str | HTTPError str | OtherException str

record env =
  get_state_event :: "str \<Rightarrow> alias_response"
  http_get :: "str \<Rightarrow> fetch_response"
  generate_content :: "str \<Rightarrow> str \<Rightarrow> str \<Rightarrow> str option"
  respond_event_id :: "str \<Rightarrow> str \<Rightarrow> str"
  urlparse_path :: "str \<Rightarrow> str"
  unicode_decimal :: "nat \<Rightarrow> bool"

section \<open>Paths\<close>

text \<open>
  \<open>pathlib\<close> on a POSIX system: a path is a root (\<open>/\<close>, \<open>//\<close> or none) and the list of
  its components; empty components and \<open>.\<close> are dropped when a string is parsed.
\<close>

datatype path = PurePath str "str list"

definition Path :: "str \<Rightarrow> path" where
  "Path s =
     PurePath
       (if prefix (ascii ''//'') s \<and> \<not> prefix (ascii ''///'') s then ascii ''//''
        else if prefix (ascii ''/'') s then ascii ''/'' else [])
       (filter (\<lambda>x. x \<noteq> [] \<and> x \<noteq> ascii ''.'') (split_on (of_char (CHR ''/'')) s))"

fun joinpath :: "path \<Rightarrow> str \<Rightarrow> path" where
  \<comment> \<open>\<open>p / s\<close>: an absolute right operand replaces the left one\<close>
  "joinpath (PurePath root parts) s =
     (case Path s of
        PurePath root' parts' \<Rightarrow>
          if root' \<noteq> [] then PurePath root' parts' else PurePath root (parts @ parts'))"

fun parent :: "path \<Rightarrow> path" where
  "parent (PurePath root parts) = PurePath root (butlast parts)"

fun path_str :: "path \<Rightarrow> str" where
  "path_str (PurePath root parts) =
     (if root = [] \<and> parts = [] then ascii ''.'' else root @ join (ascii ''/'') parts)"

section \<open>The handlers\<close>

definition alias_or :: "str option \<Rightarrow> str \<Rightarrow> str" where
  \<comment> \<open>\<open>room_alias or evt.room_id\<close>: \<open>None\<close> and the empty string are false\<close>
  "alias_or room_alias rid =
     (case room_alias of None \<Rightarrow> rid | Some a \<Rightarrow> if a = [] then rid else a)"

definition get_room_alias :: "env \<Rightarrow> str \<Rightarrow> action list \<times> str option" where
  "get_room_alias env rid =
     (case get_state_event env rid of
        MNotFound \<Rightarrow> ([GetStateEvent rid, Log WARNING ''No room alias for %s'' [S rid]], None)
      | CanonicalAlias a \<Rightarrow> ([GetStateEvent rid], a))"

definition get_meeting_log ::
  "env \<Rightarrow> event \<Rightarrow> str \<Rightarrow> action list \<times> (error + str)" where
  "get_meeting_log env evt url =
     (let t = [Log DEBUG ''Processing meeting log from URL: {} in room {}'' [S url, S (room_id evt)],
               HttpGet url]
      in case http_get env url of
           HTTPError e \<Rightarrow>
             (t @ [Log EXCEPTION ''Failed to fetch meeting log from {}: {}'' [S url, S e]],
              Inl (MeetingLogFetchingError
                     (CROSS_MARK @ ascii '' Failed to fetch meeting log: '' @ e)))
         | OtherException e \<Rightarrow>
             (t @ [Log EXCEPTION ''Unexpected error processing meeting log: {}'' [S e]],
              Inl (MeetingLogFetchingError
                     (CROSS_MARK @ ascii '' Error processing meeting log: '' @ e)))
         | ResponseText doc_data \<Rightarrow>
             (t @ [Log DEBUG ''Successfully fetched meeting log content ({} characters)''
                     [N (length doc_data)]],
              Inr doc_data))"

definition extract_usernames ::
  "plugin \<Rightarrow> env \<Rightarrow> str \<Rightarrow> action list \<times> (error + str list)" where
  "extract_usernames self env meeting_log =
     (let matches = findall (unicode_decimal env) meeting_log;
          usernames = set matches;
          ignored_ids = [mxid self, meetbot_id (config self)] @ ignored_participants (config self)
      in case remove_ignored ignored_ids usernames of
           Inl e \<Rightarrow> ([], Inl e)
         | Inr usernames' \<Rightarrow>
             (let result = sorted_list_of_set usernames'
              in ([Log INFO ''Found {} unique participants: {}'' [N (length result), L result]],
                  Inr result)))"

definition get_summary :: "plugin \<Rightarrow> env \<Rightarrow> str \<Rightarrow> action list \<times> str option" where
  "get_summary self env meeting_log =
     ([GenerateContent (gemini_model (config self)) meeting_log LLM_PROMPT],
      generate_content env (gemini_model (config self)) meeting_log LLM_PROMPT)"

definition UNVALIDATED_NOTE :: str where
  "UNVALIDATED_NOTE =
     ascii ''*Note: This summary has not been validated by the attendants.*\<newline>\<newline>''"

definition save_summary_to_file :: "plugin \<Rightarrow> str \<Rightarrow> str \<Rightarrow> bool \<Rightarrow> action list" where
  "save_summary_to_file self summary path validated =
     (case meetings_directory (config self) of
        None \<Rightarrow> []
      | Some dir \<Rightarrow>
          if dir = [] then []
          else
            (let summary' = (if \<not> validated then UNVALIDATED_NOTE @ summary else summary);
                 meetings_dir = Path dir;
                 file_path = joinpath meetings_dir path
             in [Mkdir (path_str (parent file_path)),
                 WriteText (path_str file_path) summary',
                 Log INFO ''Saved summary to {}'' [S (path_str file_path)]]))"

definition summary_path_of :: "str \<Rightarrow> str" where
  \<comment> \<open>lines 218 and 219 of the source, applied to \<open>urlparse(url).path\<close>\<close>
  "summary_path_of url_path =
     lstrip (slice_to url_path (- int (length (ascii ''.log.txt''))) @ ascii ''.summary.md'')
       (ascii ''/'')"

definition post_summary ::
  "plugin \<Rightarrow> env \<Rightarrow> event \<Rightarrow> str option \<Rightarrow> str list \<Rightarrow> str \<Rightarrow> action list" where
  "post_summary self env evt summary usernames url =
     (case summary of
        None \<Rightarrow>
          [Log WARNING ''Could not generate summary for meeting in room %s'' [S (room_id evt)]]
      | Some summary \<Rightarrow>
          (let text = RESPONSE_TEMPLATE (join (ascii '', '') usernames) summary;
               response_event_id = respond_event_id env (room_id evt) text;
               summary_path = summary_path_of (urlparse_path env url)
           in [Log INFO ''Sending summary to %s participants in room %s''
                 [N (length usernames), S (room_id evt)],
               Respond (room_id evt) text True,
               React (room_id evt) response_event_id CHECK_MARK,
               React (room_id evt) response_event_id CROSS_MARK]
              @ save_summary_to_file self summary summary_path False))"

definition handle_meeting_log :: "plugin \<Rightarrow> env \<Rightarrow> event \<Rightarrow> str \<Rightarrow> action list" where
  "handle_meeting_log self env evt url =
     SetTyping (room_id evt) 30000 #
     (case get_meeting_log env evt url of
        (t, Inl (MeetingLogFetchingError e)) \<Rightarrow> t @ [Reply (event_id evt) e]
      | (t, Inl other) \<Rightarrow> t
      | (t, Inr meeting_log) \<Rightarrow>
          (case extract_usernames self env meeting_log of
             (t1, Inl e) \<Rightarrow> t @ t1
           | (t1, Inr usernames) \<Rightarrow>
               (case get_summary self env meeting_log of
                  (t2, summary) \<Rightarrow>
                    t @ t1 @ t2 @ post_summary self env evt summary usernames url
                    @ [SetTyping (room_id evt) 0])))"

definition on_message :: "plugin \<Rightarrow> env \<Rightarrow> event \<Rightarrow> action list" where
  "on_message self env evt =
     (case get_room_alias env (room_id evt) of
        (t0, room_alias) \<Rightarrow>
          if msgtype evt \<noteq> NOTICE then t0
          else if sender evt \<noteq> meetbot_id (config self) then
            t0 @ [Log DEBUG ''Ignoring message from {} in {}, I'm only listening to {}''
                    [S (sender evt), S (alias_or room_alias (room_id evt)),
                     S (meetbot_id (config self))]]
          else
            (let message_body = body evt in
             if \<not> startswith message_body MEETBOT_PREFIX then
               t0 @ [MarkRead (event_id evt),
                     Log DEBUG ''Ignoring message from meetbot: {}'' [S message_body]]
             else
               (let url = slice_from message_body (length MEETBOT_PREFIX);
                    room_name = alias_or room_alias (room_id evt);
                    room_name' = (if room_name \<noteq> room_id evt
                                  then room_name @ ascii '' ('' @ room_id evt @ ascii '')''
                                  else room_name)
                in t0 @ [MarkRead (event_id evt),
                         Log INFO ''Detected Text Log message from meetbot in {} with URL: {}''
                           [S room_name', S url]]
                   @ handle_meeting_log self env evt url)))"

section \<open>Configuration update\<close>

text \<open>
  The stored configuration and the base (default) configuration are YAML documents: a
  value is null, a text, another scalar (a number, a boolean), a sequence or a mapping,
  and a configuration is a mapping at the top. \<open>do_update\<close> reads them through the
  library's recursive dictionary, for which a key is \<open>in\<close> the configuration when its
  entry is not \<open>None\<close>, and which answers a missing key with \<open>None\<close>; the entry itself
  is the raw YAML value, on which \<open>in\<close>, subscripts and \<open>items\<close> are those of Python.
\<close>

datatype yaml = Null | Str str | Scalar str | Seq "yaml list" | Map "(str \<times> yaml) list"

type_synonym mapping = "(str \<times> yaml) list"

definition getitem :: "mapping \<Rightarrow> str \<Rightarrow> yaml" where
  \<comment> \<open>\<open>config[key]\<close> of the recursive dictionary\<close>
  "getitem d k = (case map_of d k of None \<Rightarrow> Null | Some v \<Rightarrow> v)"

definition contains :: "mapping \<Rightarrow> str \<Rightarrow> bool" where
  \<comment> \<open>\<open>key in config\<close> of the recursive dictionary\<close>
  "contains d k = (getitem d k \<noteq> Null)"

fun py_in :: "str \<Rightarrow> yaml \<Rightarrow> error + bool" where
  \<comment> \<open>\<open>k in x\<close>: a key of a mapping, an element of a sequence, a part of a text\<close>
  "py_in k (Map g) = Inr (map_of g k \<noteq> None)"
| "py_in k (Seq xs) = Inr (Str k \<in> set xs)"
| "py_in k (Str s) = Inr (sublist k s)"
| "py_in k (Scalar s) = Inl TypeError"
| "py_in k Null = Inl TypeError"

fun subscript :: "yaml \<Rightarrow> str \<Rightarrow> error + yaml" where
  \<comment> \<open>\<open>x[k]\<close> for a text key\<close>
  "subscript (Map g) k = (case map_of g k of None \<Rightarrow> Inl KeyError | Some v \<Rightarrow> Inr v)"
| "subscript x k = Inl TypeError"

fun setitem :: "yaml \<Rightarrow> str \<Rightarrow> yaml \<Rightarrow> error + yaml" where
  \<comment> \<open>\<open>x[k] = v\<close> for a text key\<close>
  "setitem (Map g) k v = Inr (Map (AList.update k v g))"
| "setitem x k v = Inl TypeError"

fun items :: "yaml \<Rightarrow> error + (str \<times> yaml) list" where
  \<comment> \<open>\<open>x.items()\<close>\<close>
  "items (Map g) = Inr g"
| "items x = Inl AttributeError"

definition fill_model :: "mapping \<Rightarrow> mapping \<Rightarrow> error + mapping" where
  \<comment> \<open>lines 52 and 53: the stored section receives the base's model when it has no such key\<close>
  "fill_model self base =
     (if contains self (ascii ''gemini'') then
        (case py_in (ascii ''model'') (getitem self (ascii ''gemini'')) of
           Inl e \<Rightarrow> Inl e
         | Inr present \<Rightarrow>
             if \<not> present then
               (case subscript (getitem base (ascii ''gemini'')) (ascii ''model'') of
                  Inl e \<Rightarrow> Inl e
                | Inr v \<Rightarrow>
                    (case setitem (getitem self (ascii ''gemini'')) (ascii ''model'') v of
                       Inl e \<Rightarrow> Inl e
                     | Inr sec \<Rightarrow> Inr (AList.update (ascii ''gemini'') sec self)))
             else Inr self)
      else Inr self)"

definition copy_dict :: "str \<Rightarrow> mapping \<Rightarrow> mapping \<Rightarrow> error + mapping" where
  \<comment> \<open>\<open>helper.copy_dict(key)\<close>: a fresh mapping in the base, filled item by item\<close>
  "copy_dict key source base =
     (if contains source key then
        (case items (getitem source key) of
           Inl e \<Rightarrow> Inl e
         | Inr kvs \<Rightarrow>
             Inr (AList.update key (Map (fold (\<lambda>(k, v) m. AList.update k v m) kvs [])) base))
      else Inr base)"

definition copy :: "str \<Rightarrow> mapping \<Rightarrow> mapping \<Rightarrow> mapping" where
  \<comment> \<open>\<open>helper.copy(key)\<close>\<close>
  "copy key source base =
     (if contains source key then AList.update key (getitem source key) base else base)"

definition do_update :: "mapping \<Rightarrow> mapping \<Rightarrow> error + mapping \<times> mapping" where
  \<comment> \<open>the stored configuration and the base after the update, or the error raised\<close>
  "do_update self base =
     (case fill_model self base of
        Inl e \<Rightarrow> Inl e
      | Inr self' \<Rightarrow>
          (case copy_dict (ascii ''gemini'') self' base of
             Inl e \<Rightarrow> Inl e
           | Inr base' \<Rightarrow>
               Inr (self',
                    copy (ascii ''meetings_directory'') self'
                      (copy (ascii ''ignored_participants'') self'
                         (copy (ascii ''meetbot_id'') self' base')))))"

section \<open>What the claims speak of\<close>

definition admits :: "plugin \<Rightarrow> event \<Rightarrow> bool" where
  \<comment> \<open>the condition of admission in the words of the specification\<close>
  "admits self evt =
     (msgtype evt = NOTICE \<and> sender evt = meetbot_id (config self)
      \<and> prefix (ascii ''Text Log: '') (body evt))"

fun fetched_urls :: "action list \<Rightarrow> str list" where
  \<comment> \<open>the URLs handed to the HTTP session, in order\<close>
  "fetched_urls [] = []"
| "fetched_urls (HttpGet url # t) = url # fetched_urls t"
| "fetched_urls (a # t) = fetched_urls t"

definition stamp_char :: "(nat \<Rightarrow> bool) \<Rightarrow> char \<Rightarrow> nat \<Rightarrow> bool" where
  \<comment> \<open>a letter of \<open>YYYY-MM-DD HH:MM:SS\<close> stands for a digit, any other character for itself\<close>
  "stamp_char decimal p c = (if p \<in> set ''YMDHS'' then is_digit decimal c else c = of_char p)"

definition timestamp :: "(nat \<Rightarrow> bool) \<Rightarrow> str \<Rightarrow> bool" where
  "timestamp decimal ts = list_all2 (stamp_char decimal) ''YYYY-MM-DD HH:MM:SS'' ts"

definition speaker_line :: "(nat \<Rightarrow> bool) \<Rightarrow> str \<Rightarrow> str \<Rightarrow> str \<Rightarrow> bool" where
  \<comment> \<open>\<open>s\<close> begins with \<open>YYYY-MM-DD HH:MM:SS <@identity> \<close> and goes on with \<open>rest\<close>\<close>
  "speaker_line decimal s u rest =
     (\<exists>ts name. s = ts @ ascii '' <'' @ u @ ascii ''> '' @ rest \<and> timestamp decimal ts
        \<and> u = of_char (CHR ''@'') # name \<and> name \<noteq> [] \<and> of_char (CHR ''>'') \<notin> set name)"

definition participants :: "plugin \<Rightarrow> env \<Rightarrow> str \<Rightarrow> str list" where
  \<comment> \<open>the identities found in a transcript, without the excluded ones, in sorted order\<close>
  "participants self env doc =
     sorted_list_of_set
       (set (findall (unicode_decimal env) doc)
        - ({mxid self, meetbot_id (config self)} \<union> set (ignored_participants (config self))))"

definition shape_item :: "char \<Rightarrow> item" where
  \<comment> \<open>the pattern item a character of \<open>YYYY-MM-DD HH:MM:SS\<close> stands for\<close>
  "shape_item p = (if p \<in> set ''YMDHS'' then Digit else Lit (of_char p))"

text \<open>
  A transcript written line by line: each entry is a time stamp, an identity and a message.
  An entry is well formed when the stamp has the shape \<open>YYYY-MM-DD HH:MM:SS\<close>, the identity
  is \<open>@\<close> followed by at least one character and holds no \<open>>\<close>, and the message holds no
  \<open><\<close>.
\<close>

definition entry_ok :: "(nat \<Rightarrow> bool) \<Rightarrow> str \<times> str \<times> str \<Rightarrow> bool" where
  "entry_ok decimal e =
     (case e of (ts, u, msg) \<Rightarrow>
        timestamp decimal ts \<and> length u > 1 \<and> hd u = of_char (CHR ''@'')
        \<and> of_char (CHR ''>'') \<notin> set u \<and> of_char (CHR ''<'') \<notin> set msg)"

fun transcript :: "(str \<times> str \<times> str) list \<Rightarrow> str" where
  "transcript [] = []"
| "transcript ((ts, u, msg) # es) =
     ts @ ascii '' <'' @ u @ ascii ''> '' @ msg @ ascii ''\<newline>'' @ transcript es"

subsection \<open>Sample inputs\<close>

definition sample_config :: config where
  "sample_config =
     \<lparr>gemini_model = ascii ''gemini-2.5-flash'', meetbot_id = ascii ''@meetbot:fedora.im'',
      ignored_participants = [ascii ''@zodbot:fedora.im''],
      meetings_directory = Some (ascii ''/data/minutes'')\<rparr>"

definition sample_plugin :: plugin where
  "sample_plugin = \<lparr>config = sample_config, mxid = ascii ''@summary:fedora.im''\<rparr>"

definition sample_url :: str where
  "sample_url = ascii ''https://example.org/meetings/2025-09-25.log.txt''"

definition sample_log :: str where
  "sample_log = ascii ''2025-09-25 08:26:00 <@alice:server.tld> hi\<newline>2025-09-25 08:27:00 <@bob:server.tld> hello\<newline>''"

definition swallowing_log :: str where
  \<comment> \<open>a first line without \<open>>\<close>, then a speaker line\<close>
  "swallowing_log = ascii ''2025-09-25 08:26:00 <@a\<newline>2025-09-25 08:27:00 <@bob:s> hi\<newline>''"

definition sample_event :: event where
  "sample_event =
     \<lparr>room_id = ascii ''!room:fedora.im'', event_id = ascii ''$evt1'',
      sender = ascii ''@meetbot:fedora.im'',
      msgtype = NOTICE, body = ascii ''Text Log: '' @ sample_url\<rparr>"

definition sample_decimal :: "nat \<Rightarrow> bool" where
  \<comment> \<open>the Arabic-Indic digits U+0660 to U+0669, decimal digits beyond ASCII\<close>
  "sample_decimal c = (1632 \<le> c \<and> c \<le> 1641)"

definition sample_env :: "fetch_response \<Rightarrow> str option \<Rightarrow> env" where
  \<comment> \<open>collaborators that answer the fetch with \<open>r\<close> and the summary request with \<open>a\<close>;
     the path is the one the standard library gives for \<open>sample_url\<close>\<close>
  "sample_env r a =
     \<lparr>get_state_event = (\<lambda>rid. CanonicalAlias (Some (ascii ''#meeting:fedora.im''))),
      http_get = (\<lambda>url. r),
      generate_content = (\<lambda>model doc prompt. a),
      respond_event_id = (\<lambda>rid text. ascii ''$resp1''),
      urlparse_path =
        (\<lambda>url. if url = sample_url then ascii ''/meetings/2025-09-25.log.txt'' else []),
      unicode_decimal = sample_decimal\<rparr>"

definition base_config :: mapping where
  "base_config =
     [(ascii ''gemini'',
         Map [(ascii ''api_key'', Str []), (ascii ''model'', Str (ascii ''gemini-2.5-flash''))]),
      (ascii ''meetbot_id'', Str (ascii ''@meetbot:fedora.im'')),
      (ascii ''ignored_participants'', Seq []),
      (ascii ''meetings_directory'', Null)]"

definition stored_config :: mapping where
  "stored_config =
     [(ascii ''gemini'', Map [(ascii ''api_key'', Str (ascii ''secret''))]),
      (ascii ''meetbot_id'', Str (ascii ''@zodbot:fedora.im'')),
      (ascii ''meetings_directory'', Str (ascii ''/data/minutes''))]"

definition base_without_model :: mapping where
  "base_without_model =
     AList.update (ascii ''gemini'') (Map [(ascii ''api_key'', Str [])]) base_config"

section \<open>Basic facts\<close>

lemma ascii_simps [simp]:
  "ascii [] = []" "ascii (c # cs) = of_char c # ascii cs"
  by (simp_all add: ascii_def)

lemma slice_to_suffix_length: "slice_to p (- 8) = take (length p - 8) p"
  by (simp add: slice_to_def nat_diff_distrib')

lemma lstrip_append_keep:
  "r \<noteq> [] \<Longrightarrow> hd r \<notin> set cs \<Longrightarrow> lstrip (q @ r) cs = lstrip q cs @ r"
  by (induction q) (auto simp: lstrip_def dropWhile_eq_self_iff)

lemma summary_path_of_suffix:
  "p = q @ ascii ''.log.txt'' \<Longrightarrow>
   summary_path_of p = lstrip q (ascii ''/'') @ ascii ''.summary.md''"
  by (simp add: summary_path_of_def slice_to_suffix_length lstrip_append_keep)

lemma calls_append: "calls (s @ t) = calls s @ calls t"
  by (simp add: calls_def)

lemma calls_get_room_alias: "calls (fst (get_room_alias env rid)) = [GetStateEvent rid]"
  by (simp add: get_room_alias_def calls_def split: alias_response.splits)

section \<open>The archiver\<close>

text \<open>
  Claim C8. When the archive root \<open>meetings_directory\<close> is unset or empty, saving a
  summary does nothing at all: no directory is created and no file is written, whatever
  the summary, the path and the validation flag. This is no error: publishing a summary
  then consists of the reply and its two reactions and ends normally.
\<close>

theorem save_summary_disabled:
  "meetings_directory (config self) = None \<or> meetings_directory (config self) = Some [] \<Longrightarrow>
   save_summary_to_file self summary path validated = []
   \<and> post_summary self env evt (Some summary) usernames url =
       [Log INFO ''Sending summary to %s participants in room %s''
          [N (length usernames), S (room_id evt)],
        Respond (room_id evt) (RESPONSE_TEMPLATE (join (ascii '', '') usernames) summary) True,
        React (room_id evt)
          (respond_event_id env (room_id evt)
             (RESPONSE_TEMPLATE (join (ascii '', '') usernames) summary))
          CHECK_MARK,
        React (room_id evt)
          (respond_event_id env (room_id evt)
             (RESPONSE_TEMPLATE (join (ascii '', '') usernames) summary))
          CROSS_MARK]"
  by (auto simp: save_summary_to_file_def post_summary_def Let_def)

theorem save_summary_disabled_witness:
  "save_summary_to_file (sample_plugin\<lparr>config := sample_config\<lparr>meetings_directory := Some []\<rparr>\<rparr>)
     (ascii ''- point'') (ascii ''meetings/2025-09-25.summary.md'') False = []
   \<and> length (post_summary (sample_plugin\<lparr>config := sample_config\<lparr>meetings_directory := Some []\<rparr>\<rparr>)
        (sample_env (ResponseText sample_log) (Some (ascii ''- point''))) sample_event
        (Some (ascii ''- point'')) [ascii ''@alice:server.tld''] sample_url) = 4"
  using save_summary_disabled
    [of "sample_plugin\<lparr>config := sample_config\<lparr>meetings_directory := Some []\<rparr>\<rparr>"
        "ascii ''- point''" "ascii ''meetings/2025-09-25.summary.md''" False
        "sample_env (ResponseText sample_log) (Some (ascii ''- point''))" sample_event
        "[ascii ''@alice:server.tld'']" sample_url]
  by simp

text \<open>
  Claim C9. The path of the archived summary is derived from the path component of the
  URL by cutting its last eight characters (the length of \<open>.log.txt\<close>) and appending
  \<open>.summary.md\<close>, whether or not the path ends in \<open>.log.txt\<close>; leading separators are
  stripped afterwards. A path of at most eight characters is cut down to nothing, so that
  its summary path is \<open>.summary.md\<close>.
\<close>

theorem summary_path_truncates:
  "summary_path_of p = lstrip (take (length p - 8) p @ ascii ''.summary.md'') (ascii ''/'')
   \<and> length (take (length p - 8) p) = length p - 8
   \<and> (length p \<le> 8 \<longrightarrow> summary_path_of p = ascii ''.summary.md'')"
  by (simp add: summary_path_of_def slice_to_suffix_length lstrip_def)

theorem summary_path_truncates_witness:
  "summary_path_of (ascii ''/meetings/2025-09-25.html'') = ascii ''meetings/2025-09.summary.md''
   \<and> summary_path_of (ascii ''/ab'') = ascii ''.summary.md''"
  using summary_path_truncates [of "ascii ''/meetings/2025-09-25.html''"]
    summary_path_truncates [of "ascii ''/ab''"]
  by (simp add: lstrip_def)

section \<open>Traces of the handlers\<close>

lemma fetched_urls_append: "fetched_urls (s @ t) = fetched_urls s @ fetched_urls t"
  by (induction s rule: fetched_urls.induct) simp_all

lemma remove_ignored_result: "remove_ignored ids names = Inr (names - set ids)"
proof (induction ids arbitrary: names)
  case Nil
  then show ?case by simp
next
  case (Cons i ids)
  have step: "suppress_KeyError names (set_remove names i) = Inr (names - {i})"
    by (simp add: suppress_KeyError_def set_remove_def)
  have sets: "names - {i} - set ids = names - set (i # ids)"
    by auto
  have "remove_ignored (i # ids) names = remove_ignored ids (names - {i})"
    by (simp add: step)
  also have "\<dots> = Inr (names - {i} - set ids)"
    by (rule Cons.IH)
  finally show ?case
    by (simp only: sets)
qed

lemma calls_Nil: "calls [] = []"
  by (simp add: calls_def)

lemma calls_Cons: "calls (a # t) = (if is_Log a then calls t else a # calls t)"
  by (simp add: calls_def)

lemma meetbot_prefix_length: "length MEETBOT_PREFIX = 10"
  by (simp add: MEETBOT_PREFIX_def)

lemma startswith_meetbot_prefix:
  "startswith s MEETBOT_PREFIX = prefix (ascii ''Text Log: '') s"
  by (simp add: startswith_def MEETBOT_PREFIX_def)

lemma extract_usernames_result:
  "extract_usernames self env doc =
     ([Log INFO ''Found {} unique participants: {}''
         [N (length (participants self env doc)), L (participants self env doc)]],
      Inr (participants self env doc))"
  by (simp add: extract_usernames_def remove_ignored_result participants_def Let_def Un_commute
      insert_commute)

lemma calls_get_meeting_log:
  "calls (fst (get_meeting_log env evt url)) = [HttpGet url]"
  by (simp add: get_meeting_log_def calls_Cons calls_Nil calls_append Let_def
      split: fetch_response.splits)

lemma handle_meeting_log_failed:
  "get_meeting_log env evt url = (t, Inl (MeetingLogFetchingError m)) \<Longrightarrow>
   handle_meeting_log self env evt url = SetTyping (room_id evt) 30000 # t @ [Reply (event_id evt) m]"
  by (simp add: handle_meeting_log_def)

lemma handle_meeting_log_fetched:
  "get_meeting_log env evt url = (t, Inr doc) \<Longrightarrow>
   handle_meeting_log self env evt url =
     SetTyping (room_id evt) 30000 # t @ fst (extract_usernames self env doc)
     @ fst (get_summary self env doc)
     @ post_summary self env evt (snd (get_summary self env doc)) (participants self env doc) url
     @ [SetTyping (room_id evt) 0]"
  by (simp add: handle_meeting_log_def extract_usernames_result get_summary_def)

lemma fetched_urls_post_summary: "fetched_urls (post_summary self env evt summary us url) = []"
  by (simp add: post_summary_def save_summary_to_file_def Let_def split: option.splits)

lemma fetched_urls_get_meeting_log: "fetched_urls (fst (get_meeting_log env evt url)) = [url]"
  by (simp add: get_meeting_log_def Let_def split: fetch_response.splits)

lemma get_meeting_log_cases:
  obtains t m where "get_meeting_log env evt url = (t, Inl (MeetingLogFetchingError m))"
  | t doc where "get_meeting_log env evt url = (t, Inr doc)"
  by (cases "http_get env url") (auto simp: get_meeting_log_def Let_def)

lemma fetched_urls_handle: "fetched_urls (handle_meeting_log self env evt url) = [url]"
proof (cases rule: get_meeting_log_cases [of env evt url])
  case (1 t m)
  with fetched_urls_get_meeting_log [of env evt url] show ?thesis
    by (simp add: handle_meeting_log_failed fetched_urls_append)
next
  case (2 t doc)
  with fetched_urls_get_meeting_log [of env evt url] show ?thesis
    by (simp add: handle_meeting_log_fetched fetched_urls_append fetched_urls_post_summary
        extract_usernames_result get_summary_def)
qed

lemma fetched_urls_get_room_alias: "fetched_urls (fst (get_room_alias env rid)) = []"
  by (simp add: get_room_alias_def split: alias_response.splits)

lemma on_message_accepted:
  "admits self evt \<Longrightarrow>
   on_message self env evt =
     fst (get_room_alias env (room_id evt))
     @ [MarkRead (event_id evt),
        Log INFO ''Detected Text Log message from meetbot in {} with URL: {}''
          [S (if alias_or (snd (get_room_alias env (room_id evt))) (room_id evt) \<noteq> room_id evt
              then alias_or (snd (get_room_alias env (room_id evt))) (room_id evt)
                   @ ascii '' ('' @ room_id evt @ ascii '')''
              else alias_or (snd (get_room_alias env (room_id evt))) (room_id evt)),
           S (drop 10 (body evt))]]
     @ handle_meeting_log self env evt (drop 10 (body evt))"
  by (cases "get_room_alias env (room_id evt)")
    (simp add: on_message_def admits_def startswith_meetbot_prefix meetbot_prefix_length
      slice_from_def Let_def)

lemma on_message_rejected:
  "\<not> admits self evt \<Longrightarrow>
   on_message self env evt =
     fst (get_room_alias env (room_id evt))
     @ (if msgtype evt \<noteq> NOTICE then []
        else if sender evt \<noteq> meetbot_id (config self) then
          [Log DEBUG ''Ignoring message from {} in {}, I'm only listening to {}''
             [S (sender evt), S (alias_or (snd (get_room_alias env (room_id evt))) (room_id evt)),
              S (meetbot_id (config self))]]
        else [MarkRead (event_id evt),
              Log DEBUG ''Ignoring message from meetbot: {}'' [S (body evt)]])"
  by (cases "get_room_alias env (room_id evt)")
    (auto simp: on_message_def admits_def startswith_meetbot_prefix Let_def)

lemma sample_admitted: "admits sample_plugin sample_event"
  by (simp add: admits_def sample_plugin_def sample_config_def sample_event_def)

lemma sample_body: "drop 10 (body sample_event) = sample_url"
  by (simp add: sample_event_def)

lemma sample_event_fields:
  "room_id sample_event = ascii ''!room:fedora.im''" "event_id sample_event = ascii ''$evt1''"
  by (simp_all add: sample_event_def)

lemma sample_plugin_fields:
  "gemini_model (config sample_plugin) = ascii ''gemini-2.5-flash''"
  "meetings_directory (config sample_plugin) = Some (ascii ''/data/minutes'')"
  by (simp_all add: sample_plugin_def sample_config_def)

lemma sample_env_fields:
  "get_state_event (sample_env r a) rid = CanonicalAlias (Some (ascii ''#meeting:fedora.im''))"
  "http_get (sample_env r a) url = r"
  "generate_content (sample_env r a) model doc prompt = a"
  "respond_event_id (sample_env r a) rid text = ascii ''$resp1''"
  "urlparse_path (sample_env r a) sample_url = ascii ''/meetings/2025-09-25.log.txt''"
  "unicode_decimal (sample_env r a) = sample_decimal"
  by (simp_all add: sample_env_def)

lemma sample_found:
  "sorted_list_of_set
     (set (findall sample_decimal sample_log)
      - ({mxid sample_plugin, meetbot_id (config sample_plugin)}
         \<union> set (ignored_participants (config sample_plugin))))
   = [ascii ''@alice:server.tld'', ascii ''@bob:server.tld'']"
  by code_simp

lemma sample_participants:
  "participants sample_plugin (sample_env r a) sample_log
     = [ascii ''@alice:server.tld'', ascii ''@bob:server.tld'']"
  unfolding participants_def sample_env_fields by (rule sample_found)

section \<open>The event filter\<close>

text \<open>
  Claim C6. An inbound message event is admitted if and only if its message type is
  notice, its sender is the configured announcing bot and its body begins with
  \<open>Text Log: \<close>. The handler fetches a transcript exactly for the admitted events, and
  the URL it hands to the fetcher is the body with the prefix removed.
\<close>

theorem on_message_admission:
  "fetched_urls (on_message self env evt) =
     (if admits self evt then [drop 10 (body evt)] else [])
   \<and> (admits self evt \<longrightarrow> body evt = ascii ''Text Log: '' @ drop 10 (body evt))"
proof (cases "admits self evt")
  case True
  then have "prefix (ascii ''Text Log: '') (body evt)" by (simp add: admits_def)
  then obtain u where u: "body evt = ascii ''Text Log: '' @ u" by (auto simp: prefix_def)
  then have "body evt = ascii ''Text Log: '' @ drop 10 (body evt)" by simp
  with True show ?thesis
    by (simp add: on_message_accepted fetched_urls_append fetched_urls_get_room_alias
        fetched_urls_handle)
next
  case False
  then show ?thesis
    by (simp add: on_message_rejected fetched_urls_append fetched_urls_get_room_alias)
qed

theorem on_message_admission_witness:
  "fetched_urls (on_message sample_plugin (sample_env (ResponseText sample_log) None) sample_event)
     = [ascii ''https://example.org/meetings/2025-09-25.log.txt'']
   \<and> fetched_urls (on_message sample_plugin (sample_env (ResponseText sample_log) None)
        (sample_event\<lparr>msgtype := TEXT\<rparr>)) = []"
  using on_message_admission [of sample_plugin "sample_env (ResponseText sample_log) None"
      sample_event]
    on_message_admission [of sample_plugin "sample_env (ResponseText sample_log) None"
      "sample_event\<lparr>msgtype := TEXT\<rparr>"]
  by (simp add: admits_def sample_plugin_def sample_config_def sample_event_def sample_url_def)

text \<open>
  Claim C1, as the code has it. An event that is not admitted causes no reply, no
  transcript fetch, no typing call, no summary request and no archive write. Its only
  calls to collaborators are the lookup of the room alias, which is made for every event,
  and, when the event is a notice of the announcing bot whose body lacks the prefix, the
  marking of the event as read.
\<close>

theorem rejected_event_calls:
  "\<not> admits self evt \<Longrightarrow>
   calls (on_message self env evt) =
     GetStateEvent (room_id evt)
     # (if msgtype evt = NOTICE \<and> sender evt = meetbot_id (config self)
        then [MarkRead (event_id evt)] else [])"
  by (simp add: on_message_rejected calls_append calls_get_room_alias calls_Cons calls_Nil)

theorem rejected_event_calls_witness:
  "calls (on_message sample_plugin (sample_env (ResponseText sample_log) None)
     (sample_event\<lparr>msgtype := TEXT\<rparr>)) = [GetStateEvent (ascii ''!room:fedora.im'')]"
  using rejected_event_calls [of sample_plugin "sample_event\<lparr>msgtype := TEXT\<rparr>"
      "sample_env (ResponseText sample_log) None"]
  by (simp add: admits_def sample_event_def)

text \<open>
  A notice of the announcing bot without the prefix is not admitted, and yet two calls
  are made for it: the alias lookup and the read marker.
\<close>

theorem rejected_notice_marked_read:
  "\<not> admits sample_plugin (sample_event\<lparr>body := ascii ''Meeting ended''\<rparr>)
   \<and> calls (on_message sample_plugin (sample_env (ResponseText sample_log) None)
        (sample_event\<lparr>body := ascii ''Meeting ended''\<rparr>))
     = [GetStateEvent (ascii ''!room:fedora.im''), MarkRead (ascii ''$evt1'')]"
proof -
  have n: "\<not> admits sample_plugin (sample_event\<lparr>body := ascii ''Meeting ended''\<rparr>)"
    by (simp add: admits_def)
  then show ?thesis
    by (simp add: on_message_rejected calls_append calls_get_room_alias calls_Cons calls_Nil)
      (simp add: sample_event_def sample_plugin_def sample_config_def)
qed

section \<open>The pipeline\<close>

text \<open>
  Claim C4. When the fetch of the transcript of an admitted event fails, with an HTTP
  error or with any other exception, the handler sends exactly one reply to the event,
  made of the failure mark (the cross U+274C), a fixed phrase and the text of the error.
  Nothing follows: no summary request, no summary message, no archive write.
\<close>

theorem fetch_failure_single_reply:
  "admits self evt \<Longrightarrow> http_get env (drop 10 (body evt)) = r \<Longrightarrow>
   r = HTTPError e \<or> r = OtherException e \<Longrightarrow>
   calls (on_message self env evt) =
     [GetStateEvent (room_id evt), MarkRead (event_id evt),
      SetTyping (room_id evt) 30000, HttpGet (drop 10 (body evt)),
      Reply (event_id evt)
        ([0x274C]
         @ (case r of HTTPError x \<Rightarrow> ascii '' Failed to fetch meeting log: ''
            | OtherException x \<Rightarrow> ascii '' Error processing meeting log: ''
            | ResponseText x \<Rightarrow> [])
         @ e)]"
  by (auto simp: on_message_accepted calls_append calls_get_room_alias handle_meeting_log_def
      get_meeting_log_def Let_def calls_Cons calls_Nil CROSS_MARK_def)

theorem fetch_failure_single_reply_witness:
  "calls (on_message sample_plugin (sample_env (HTTPError (ascii ''404'')) None) sample_event)
     = [GetStateEvent (ascii ''!room:fedora.im''), MarkRead (ascii ''$evt1''),
        SetTyping (ascii ''!room:fedora.im'') 30000,
        HttpGet (ascii ''https://example.org/meetings/2025-09-25.log.txt''),
        Reply (ascii ''$evt1'') ([0x274C] @ ascii '' Failed to fetch meeting log: 404'')]"
  using fetch_failure_single_reply [of sample_plugin sample_event
      "sample_env (HTTPError (ascii ''404'')) None" "HTTPError (ascii ''404'')" "ascii ''404''"]
    sample_admitted
  by (simp add: sample_env_fields sample_event_fields sample_body) (simp add: sample_url_def)

text \<open>
  Claim C7 says that the typing indicator, set with a timeout of 30000 ms when
  processing starts, is cleared on every path. On the path of a failed fetch it is not:
  the handler returns right after the reply, and the last typing call stays the one with
  30000 ms.
\<close>

theorem fetch_failure_typing_not_cleared:
  "calls (on_message sample_plugin
      (sample_env (OtherException (ascii ''404, message=Not Found'')) None) sample_event)
     = [GetStateEvent (ascii ''!room:fedora.im''), MarkRead (ascii ''$evt1''),
        SetTyping (ascii ''!room:fedora.im'') 30000,
        HttpGet (ascii ''https://example.org/meetings/2025-09-25.log.txt''),
        Reply (ascii ''$evt1'')
          ([0x274C] @ ascii '' Error processing meeting log: 404, message=Not Found'')]
   \<and> SetTyping (ascii ''!room:fedora.im'') 0
       \<notin> set (on_message sample_plugin
           (sample_env (OtherException (ascii ''404, message=Not Found'')) None) sample_event)"
  by (simp add: on_message_accepted sample_admitted sample_body calls_append
      handle_meeting_log_def get_meeting_log_def calls_Cons calls_Nil get_room_alias_def
      sample_env_fields sample_event_fields CROSS_MARK_def)
    (simp add: sample_url_def)

text \<open>
  Claim C5, as the code has it. When the backend returns no summary (\<open>None\<close>) for an
  admitted event whose transcript was fetched, no message is posted and nothing is
  archived: after the summary request the only call is the clearing of the typing
  indicator. A warning is logged, and the participants have been extracted and logged
  before.
\<close>

theorem absent_summary_silent:
  "admits self evt \<Longrightarrow>
   http_get env (drop 10 (body evt)) = ResponseText doc \<Longrightarrow>
   generate_content env (gemini_model (config self)) doc LLM_PROMPT = None \<Longrightarrow>
   calls (on_message self env evt) =
     [GetStateEvent (room_id evt), MarkRead (event_id evt),
      SetTyping (room_id evt) 30000, HttpGet (drop 10 (body evt)),
      GenerateContent (gemini_model (config self)) doc LLM_PROMPT,
      SetTyping (room_id evt) 0]
   \<and> Log WARNING ''Could not generate summary for meeting in room %s'' [S (room_id evt)]
       \<in> set (on_message self env evt)
   \<and> Log INFO ''Found {} unique participants: {}''
         [N (length (participants self env doc)), L (participants self env doc)]
       \<in> set (on_message self env evt)"
  by (simp add: on_message_accepted calls_append calls_get_room_alias handle_meeting_log_def
      get_meeting_log_def Let_def extract_usernames_result get_summary_def post_summary_def
      calls_Cons calls_Nil)

theorem absent_summary_silent_witness:
  "calls (on_message sample_plugin (sample_env (ResponseText sample_log) None) sample_event)
     = [GetStateEvent (ascii ''!room:fedora.im''), MarkRead (ascii ''$evt1''),
        SetTyping (ascii ''!room:fedora.im'') 30000,
        HttpGet (ascii ''https://example.org/meetings/2025-09-25.log.txt''),
        GenerateContent (ascii ''gemini-2.5-flash'') sample_log LLM_PROMPT,
        SetTyping (ascii ''!room:fedora.im'') 0]
   \<and> Log INFO ''Found {} unique participants: {}''
         [N 2, L [ascii ''@alice:server.tld'', ascii ''@bob:server.tld'']]
       \<in> set (on_message sample_plugin (sample_env (ResponseText sample_log) None) sample_event)"
  using absent_summary_silent [of sample_plugin sample_event
      "sample_env (ResponseText sample_log) None" sample_log] sample_admitted
  by (simp add: sample_participants sample_env_fields sample_event_fields sample_plugin_fields
      sample_body)
    (simp add: sample_url_def numeral_2_eq_2 [symmetric])

text \<open>
  An empty summary is not an absent one: the test is \<open>summary is None\<close>, so the empty
  text is posted and archived like any other.
\<close>

theorem empty_summary_published:
  "generate_content (sample_env (ResponseText sample_log) (Some []))
      (gemini_model (config sample_plugin)) sample_log LLM_PROMPT = Some []
   \<and> Respond (ascii ''!room:fedora.im'')
         (RESPONSE_TEMPLATE (ascii ''@alice:server.tld, @bob:server.tld'') []) True
       \<in> set (on_message sample_plugin (sample_env (ResponseText sample_log) (Some [])) sample_event)
   \<and> WriteText (ascii ''/data/minutes/meetings/2025-09-25.summary.md'') UNVALIDATED_NOTE
       \<in> set (on_message sample_plugin (sample_env (ResponseText sample_log) (Some [])) sample_event)"
proof -
  have g: "get_meeting_log (sample_env (ResponseText sample_log) (Some [])) sample_event sample_url
      = ([Log DEBUG ''Processing meeting log from URL: {} in room {}''
            [S sample_url, S (room_id sample_event)],
          HttpGet sample_url,
          Log DEBUG ''Successfully fetched meeting log content ({} characters)''
            [N (length sample_log)]],
         Inr sample_log)"
    by (simp add: get_meeting_log_def sample_env_fields)
  have p: "post_summary sample_plugin (sample_env (ResponseText sample_log) (Some [])) sample_event
      (Some []) [ascii ''@alice:server.tld'', ascii ''@bob:server.tld''] sample_url
      = [Log INFO ''Sending summary to %s participants in room %s''
           [N 2, S (ascii ''!room:fedora.im'')],
         Respond (ascii ''!room:fedora.im'')
           (RESPONSE_TEMPLATE (ascii ''@alice:server.tld, @bob:server.tld'') []) True,
         React (ascii ''!room:fedora.im'') (ascii ''$resp1'') CHECK_MARK,
         React (ascii ''!room:fedora.im'') (ascii ''$resp1'') CROSS_MARK,
         Mkdir (ascii ''/data/minutes/meetings''),
         WriteText (ascii ''/data/minutes/meetings/2025-09-25.summary.md'') UNVALIDATED_NOTE,
         Log INFO ''Saved summary to {}''
           [S (ascii ''/data/minutes/meetings/2025-09-25.summary.md'')]]"
    by (simp add: post_summary_def save_summary_to_file_def sample_env_def sample_plugin_def
        sample_config_def sample_event_def summary_path_of_def slice_to_def lstrip_def Path_def
        sample_url_def Let_def)
  from p show ?thesis
    by (simp add: on_message_accepted sample_admitted sample_body
        handle_meeting_log_fetched [OF g] sample_participants get_summary_def
        sample_env_fields)
qed

text \<open>
  Claim C3. With an archive root configured, and for a URL whose path component ends in
  \<open>.log.txt\<close>, the summary is written to the root joined with that path, its leading
  separators stripped and \<open>.log.txt\<close> replaced by \<open>.summary.md\<close>; the parent directory
  is created first. The content written is the line
  \<open>*Note: This summary has not been validated by the attendants.*\<close>, an empty line and
  then the summary. For \<open>https://example.org/meetings/2025-09-25.log.txt\<close> and the root
  \<open>/data/minutes\<close> the file is \<open>/data/minutes/meetings/2025-09-25.summary.md\<close>.
\<close>

theorem post_summary_archive_path:
  "meetings_directory (config self) = Some root \<Longrightarrow> root \<noteq> [] \<Longrightarrow>
   urlparse_path env url = q @ ascii ''.log.txt'' \<Longrightarrow>
   drop 4 (post_summary self env evt (Some summary) usernames url) =
     [Mkdir (path_str (parent
        (joinpath (Path root) (lstrip q (ascii ''/'') @ ascii ''.summary.md'')))),
      WriteText (path_str (joinpath (Path root) (lstrip q (ascii ''/'') @ ascii ''.summary.md'')))
        (ascii ''*Note: This summary has not been validated by the attendants.*\<newline>\<newline>''
         @ summary),
      Log INFO ''Saved summary to {}''
        [S (path_str (joinpath (Path root) (lstrip q (ascii ''/'') @ ascii ''.summary.md'')))]]"
  by (simp add: post_summary_def save_summary_to_file_def Let_def summary_path_of_suffix
      UNVALIDATED_NOTE_def)

theorem post_summary_archive_path_witness:
  "drop 4 (post_summary sample_plugin
      (sample_env (ResponseText sample_log) (Some (ascii ''- point'')))
      sample_event (Some (ascii ''- point'')) [ascii ''@alice:server.tld''] sample_url) =
     [Mkdir (ascii ''/data/minutes/meetings''),
      WriteText (ascii ''/data/minutes/meetings/2025-09-25.summary.md'')
        (ascii ''*Note: This summary has not been validated by the attendants.*\<newline>\<newline>- point''),
      Log INFO ''Saved summary to {}''
        [S (ascii ''/data/minutes/meetings/2025-09-25.summary.md'')]]"
  using post_summary_archive_path [of sample_plugin "ascii ''/data/minutes''"
      "sample_env (ResponseText sample_log) (Some (ascii ''- point''))" sample_url
      "ascii ''/meetings/2025-09-25''" sample_event "ascii ''- point''"
      "[ascii ''@alice:server.tld'']"]
  by (simp add: sample_plugin_def sample_config_def sample_env_def sample_url_def lstrip_def
      Path_def)

section \<open>The pattern and the speaker lines\<close>

lemma pattern_head_shape: "pattern_head = map shape_item ''YYYY-MM-DD HH:MM:SS <''"
  by (simp add: pattern_head_def shape_item_def)

lemma match_items_shape:
  "(match_items decimal (map shape_item sh) s = Some r)
     = (\<exists>ts. s = ts @ r \<and> list_all2 (stamp_char decimal) sh ts)"
proof (induction sh arbitrary: s)
  case Nil
  then show ?case by auto
next
  case (Cons p sh)
  show ?case
  proof (cases s)
    case Nil
    then show ?thesis by (auto simp: list_all2_Cons1)
  next
    case (Cons c s')
    then show ?thesis
      using Cons.IH [of s']
      by (auto simp: list_all2_Cons1 shape_item_def stamp_char_def Cons_eq_append_conv)
  qed
qed

lemma match_head_iff:
  "(match_items decimal pattern_head s = Some r)
     = (\<exists>ts. s = ts @ ascii '' <'' @ r \<and> timestamp decimal ts)"
proof -
  have split: "''YYYY-MM-DD HH:MM:SS <'' = ''YYYY-MM-DD HH:MM:SS'' @ '' <''"
    by simp
  have tail: "list_all2 (stamp_char decimal) '' <'' vs = (vs = ascii '' <'')" for vs
    by (auto simp: list_all2_Cons1 stamp_char_def)
  have "(match_items decimal pattern_head s = Some r)
      = (\<exists>ts. s = ts @ r
           \<and> list_all2 (stamp_char decimal) (''YYYY-MM-DD HH:MM:SS'' @ '' <'') ts)"
    unfolding pattern_head_shape split by (rule match_items_shape)
  also have "\<dots> = (\<exists>ts. s = ts @ ascii '' <'' @ r \<and> timestamp decimal ts)" (is "?A = ?B")
  proof
    assume ?A
    then obtain ts where s: "s = ts @ r"
      and l: "list_all2 (stamp_char decimal) (''YYYY-MM-DD HH:MM:SS'' @ '' <'') ts"
      by blast
    from l [unfolded list_all2_append1] obtain us vs where "ts = us @ vs"
      and "list_all2 (stamp_char decimal) ''YYYY-MM-DD HH:MM:SS'' us"
      and "list_all2 (stamp_char decimal) '' <'' vs"
      by blast
    with s show ?B
      by (auto simp: tail timestamp_def)
  next
    assume ?B
    then obtain ts where s: "s = ts @ ascii '' <'' @ r" and t: "timestamp decimal ts"
      by auto
    from t have "list_all2 (stamp_char decimal) (''YYYY-MM-DD HH:MM:SS'' @ '' <'')
        (ts @ ascii '' <'')"
      unfolding timestamp_def by (rule list_all2_appendI) (simp add: stamp_char_def)
    moreover from s have "s = (ts @ ascii '' <'') @ r"
      by simp
    ultimately show ?A
      by blast
  qed
  finally show ?thesis .
qed

lemma match_group_iff:
  "(match_group s = Some (u, rest))
     = (\<exists>name. s = u @ ascii ''> '' @ rest \<and> u = of_char (CHR ''@'') # name \<and> name \<noteq> []
          \<and> of_char (CHR ''>'') \<notin> set name)"
proof
  assume a: "match_group s = Some (u, rest)"
  then obtain r where s: "s = of_char (CHR ''@'') # r"
    by (cases s) (auto simp: match_group_def split: if_splits)
  let ?name = "takeWhile (\<lambda>x. x \<noteq> of_char (CHR ''>'')) r"
  let ?tail = "dropWhile (\<lambda>x. x \<noteq> of_char (CHR ''>'')) r"
  from a s have n: "?name \<noteq> []" and p: "prefix (ascii ''> '') ?tail"
    and u: "u = of_char (CHR ''@'') # ?name" and rest: "rest = drop 2 ?tail"
    by (auto simp: match_group_def Let_def split: if_splits)
  from p rest have "?tail = ascii ''> '' @ rest"
    by (auto simp: prefix_def)
  then have "r = ?name @ ascii ''> '' @ rest"
    using takeWhile_dropWhile_id [of "\<lambda>x. x \<noteq> of_char (CHR ''>'')" r] by simp
  moreover have "of_char (CHR ''>'') \<notin> set ?name"
    by (auto dest: set_takeWhileD)
  ultimately show "\<exists>name. s = u @ ascii ''> '' @ rest \<and> u = of_char (CHR ''@'') # name
      \<and> name \<noteq> [] \<and> of_char (CHR ''>'') \<notin> set name"
    using s u n by auto
next
  assume "\<exists>name. s = u @ ascii ''> '' @ rest \<and> u = of_char (CHR ''@'') # name \<and> name \<noteq> []
      \<and> of_char (CHR ''>'') \<notin> set name"
  then obtain name where s: "s = of_char (CHR ''@'') # name @ ascii ''> '' @ rest"
    and u: "u = of_char (CHR ''@'') # name"
    and n: "name \<noteq> []" and g: "of_char (CHR ''>'') \<notin> set name"
    by auto
  from g have other: "x \<noteq> of_char (CHR ''>'')" if "x \<in> set name" for x
    using that by auto
  have "takeWhile (\<lambda>x. x \<noteq> of_char (CHR ''>'')) (name @ ascii ''> '' @ rest) = name"
    and "dropWhile (\<lambda>x. x \<noteq> of_char (CHR ''>'')) (name @ ascii ''> '' @ rest)
      = ascii ''> '' @ rest"
    using other by simp_all
  with s u n show "match_group s = Some (u, rest)"
    by (simp add: match_group_def)
qed

lemma match_here_iff:
  "(match_here decimal s = Some (u, rest)) = speaker_line decimal s u rest"
proof -
  have "(match_here decimal s = Some (u, rest))
      = (\<exists>r. match_items decimal pattern_head s = Some r \<and> match_group r = Some (u, rest))"
    by (auto simp: match_here_def split: option.splits)
  also have "\<dots> = speaker_line decimal s u rest"
    unfolding match_head_iff match_group_iff speaker_line_def by auto
  finally show ?thesis .
qed

lemma match_here_None_iff:
  "(match_here decimal s = None) = (\<forall>u rest. \<not> speaker_line decimal s u rest)"
  by (cases "match_here decimal s") (auto simp: match_here_iff [symmetric])

lemma speaker_line_front:
  "speaker_line decimal s u rest \<Longrightarrow> \<exists>front. s = front @ rest \<and> front \<noteq> []"
  by (auto simp: speaker_line_def)

lemma findall_sound:
  "u \<in> set (findall decimal doc) \<Longrightarrow>
   \<exists>pre s rest. doc = pre @ s \<and> speaker_line decimal s u rest"
proof (induction decimal doc rule: findall.induct)
  case (1 decimal)
  then show ?case by simp
next
  case (2 decimal c s)
  show ?case
  proof (cases "match_here decimal (c # s)")
    case None
    with 2 obtain pre s' rest where "s = pre @ s'" "speaker_line decimal s' u rest"
      by auto
    then have "c # s = (c # pre) @ s'" by simp
    with \<open>speaker_line decimal s' u rest\<close> show ?thesis by blast
  next
    case (Some m)
    obtain v rest where m: "m = (v, rest)" by (cases m)
    with Some have line: "speaker_line decimal (c # s) v rest"
      by (simp add: match_here_iff)
    show ?thesis
    proof (cases "u = v")
      case True
      with line have "c # s = [] @ (c # s) \<and> speaker_line decimal (c # s) u rest" by simp
      then show ?thesis by blast
    next
      case False
      with 2 Some m have "u \<in> set (findall decimal rest)" by simp
      with "2.IH"(2) [OF Some m [symmetric]] obtain pre s' rest'
        where r: "rest = pre @ s'" and l: "speaker_line decimal s' u rest'"
        by blast
      from line obtain front where "c # s = front @ rest"
        using speaker_line_front by blast
      with r have "c # s = (front @ pre) @ s'" by simp
      with l show ?thesis by blast
    qed
  qed
qed

lemma findall_first:
  assumes "speaker_line decimal s u rest"
  shows "findall decimal s = u # findall decimal rest"
proof (cases s)
  case Nil
  with assms show ?thesis
    using speaker_line_front by fastforce
next
  case (Cons c s')
  with assms have "match_here decimal (c # s') = Some (u, rest)"
    by (simp add: match_here_iff)
  with Cons show ?thesis
    by simp
qed

lemma findall_leftmost:
  assumes "speaker_line decimal s u rest"
    and "\<And>p1 p2. pre = p1 @ p2 \<Longrightarrow> p2 \<noteq> [] \<Longrightarrow> match_here decimal (p2 @ s) = None"
  shows "findall decimal (pre @ s) = u # findall decimal rest"
  using assms(2)
proof (induction pre)
  case Nil
  from assms(1) show ?case by (simp add: findall_first)
next
  case (Cons c pre)
  have "match_here decimal ((c # pre) @ s) = None"
    by (rule Cons.prems [of "[]"]) simp_all
  then have "findall decimal ((c # pre) @ s) = findall decimal (pre @ s)"
    by simp
  moreover have "findall decimal (pre @ s) = u # findall decimal rest"
  proof (rule Cons.IH)
    fix p1 p2 :: str
    assume "pre = p1 @ p2" and "p2 \<noteq> []"
    then show "match_here decimal (p2 @ s) = None"
      using Cons.prems [of "c # p1" p2] by simp
  qed
  ultimately show ?case by simp
qed

lemma findall_none:
  "(\<And>p1 p2. doc = p1 @ p2 \<Longrightarrow> match_here decimal p2 = None) \<Longrightarrow> findall decimal doc = []"
proof (induction doc)
  case Nil
  then show ?case by simp
next
  case (Cons c doc)
  have "match_here decimal (c # doc) = None"
    by (rule Cons.prems [of "[]"]) simp
  moreover have "findall decimal doc = []"
  proof (rule Cons.IH)
    fix p1 p2 :: str
    assume "doc = p1 @ p2"
    then show "match_here decimal p2 = None"
      using Cons.prems [of "c # p1" p2] by simp
  qed
  ultimately show ?case by simp
qed

text \<open>
  A speaker line of the text is found unless a match that was found begins before it
  and ends behind its start.
\<close>

lemma findall_complete:
  "doc = pre @ s \<Longrightarrow> speaker_line decimal s u rest \<Longrightarrow>
   u \<in> set (findall decimal doc)
   \<or> (\<exists>p1 p2 v r. doc = p1 @ p2 \<and> speaker_line decimal p2 v r \<and> v \<in> set (findall decimal doc)
        \<and> length p1 < length pre \<and> length pre < length doc - length r)"
proof (induction decimal doc arbitrary: pre rule: findall.induct)
  case (1 decimal)
  then show ?case
    using speaker_line_front by fastforce
next
  case (2 decimal c t)
  show ?case
  proof (cases pre)
    case Nil
    with "2.prems" have "findall decimal (c # t) = u # findall decimal rest"
      by (simp add: findall_first)
    then show ?thesis by simp
  next
    case (Cons a pre0)
    with "2.prems" have t: "t = pre0 @ s" by simp
    show ?thesis
    proof (cases "match_here decimal (c # t)")
      case None
      then have same: "findall decimal (c # t) = findall decimal t" by simp
      from "2.IH"(1) [OF None t "2.prems"(2)] show ?thesis
      proof
        assume "u \<in> set (findall decimal t)"
        with same show ?thesis by simp
      next
        assume "\<exists>p1 p2 v r. t = p1 @ p2 \<and> speaker_line decimal p2 v r
          \<and> v \<in> set (findall decimal t) \<and> length p1 < length pre0
          \<and> length pre0 < length t - length r"
        then obtain p1 p2 v r where "t = p1 @ p2" "speaker_line decimal p2 v r"
          "v \<in> set (findall decimal t)" "length p1 < length pre0"
          "length pre0 < length t - length r"
          by blast
        with same Cons have "c # t = (c # p1) @ p2 \<and> speaker_line decimal p2 v r
          \<and> v \<in> set (findall decimal (c # t)) \<and> length (c # p1) < length pre
          \<and> length pre < length (c # t) - length r"
          by auto
        then show ?thesis by blast
      qed
    next
      case (Some m)
      obtain v r where m: "m = (v, r)" by (cases m)
      with Some have line: "speaker_line decimal (c # t) v r"
        by (simp add: match_here_iff)
      from Some m have found: "findall decimal (c # t) = v # findall decimal r"
        by simp
      from line obtain front where front: "c # t = front @ r" "front \<noteq> []"
        using speaker_line_front by blast
      show ?thesis
      proof (cases "length pre < length front")
        case True
        with front Cons found line have "c # t = [] @ (c # t) \<and> speaker_line decimal (c # t) v r
          \<and> v \<in> set (findall decimal (c # t)) \<and> length ([] :: str) < length pre
          \<and> length pre < length (c # t) - length r"
          by auto
        then show ?thesis by blast
      next
        case False
        from front "2.prems"(1) have "front @ r = pre @ s" by simp
        with False obtain pre1 where pre1: "pre = front @ pre1" "r = pre1 @ s"
          by (auto simp: append_eq_append_conv2)
        from "2.IH"(2) [OF Some m [symmetric] pre1(2) "2.prems"(2)] show ?thesis
        proof
          assume "u \<in> set (findall decimal r)"
          with found show ?thesis by simp
        next
          assume "\<exists>p1 p2 v' r'. r = p1 @ p2 \<and> speaker_line decimal p2 v' r'
            \<and> v' \<in> set (findall decimal r) \<and> length p1 < length pre1
            \<and> length pre1 < length r - length r'"
          then obtain p1 p2 v' r' where "r = p1 @ p2" "speaker_line decimal p2 v' r'"
            "v' \<in> set (findall decimal r)" "length p1 < length pre1"
            "length pre1 < length r - length r'"
            by blast
          with found front pre1 have "c # t = (front @ p1) @ p2
            \<and> speaker_line decimal p2 v' r' \<and> v' \<in> set (findall decimal (c # t))
            \<and> length (front @ p1) < length pre
            \<and> length pre < length (c # t) - length r'"
            by auto
          then show ?thesis by blast
        qed
      qed
    qed
  qed
qed

subsection \<open>Transcripts written line by line\<close>

lemma of_char_bracket: "(of_char p = (60::nat)) = (p = CHR ''<'')"
proof -
  have "(of_char p = (of_char (CHR ''<'') :: nat)) = (p = CHR ''<'')"
    by (rule of_char_eq_iff)
  then show ?thesis by simp
qed

lemma stamp_no_bracket:
  "list_all2 (stamp_char decimal) sh ts \<Longrightarrow> CHR ''<'' \<notin> set sh \<Longrightarrow> 60 \<notin> set ts"
  by (induction rule: list_all2_induct)
    (auto simp: stamp_char_def is_digit_def of_char_bracket split: if_splits)

lemma timestamp_shape: "timestamp decimal ts \<Longrightarrow> 60 \<notin> set ts \<and> length ts = 19"
  using stamp_no_bracket [of decimal "''YYYY-MM-DD HH:MM:SS''" ts]
  by (auto simp: timestamp_def dest: list_all2_lengthD)

lemma speaker_line_bracket:
  assumes "speaker_line decimal s u rest"
  shows "length (takeWhile (\<lambda>c. c \<noteq> 60) s) = 20"
proof -
  from assms obtain ts where s: "s = ts @ ascii '' <'' @ u @ ascii ''> '' @ rest"
    and t: "timestamp decimal ts"
    by (auto simp: speaker_line_def)
  from t have n: "c \<noteq> 60" if "c \<in> set ts" for c
    using that timestamp_shape by auto
  have "takeWhile (\<lambda>c. c \<noteq> 60) s = ts @ ascii '' ''"
    unfolding s using n by simp
  with t show ?thesis
    by (simp add: timestamp_shape)
qed

lemma findall_skip:
  assumes "60 \<notin> set m" and "r = [] \<or> (\<exists>u rest. speaker_line decimal r u rest)"
  shows "findall decimal (m @ r) = findall decimal r"
  using assms(1)
proof (induction m)
  case Nil
  then show ?case by simp
next
  case (Cons c m)
  then have n: "x \<noteq> 60" if "x \<in> set (c # m)" for x
    using that by auto
  have tw: "takeWhile (\<lambda>x. x \<noteq> 60) ((c # m) @ r) = (c # m) @ takeWhile (\<lambda>x. x \<noteq> 60) r"
    by (rule takeWhile_append2) (rule n)
  have "match_here decimal ((c # m) @ r) = None"
  proof (rule ccontr)
    assume "match_here decimal ((c # m) @ r) \<noteq> None"
    then obtain u rest where "match_here decimal ((c # m) @ r) = Some (u, rest)"
      by auto
    then have l: "speaker_line decimal ((c # m) @ r) u rest"
      by (simp only: match_here_iff)
    then have twenty: "length ((c # m) @ takeWhile (\<lambda>x. x \<noteq> 60) r) = 20"
      using speaker_line_bracket [OF l] tw by simp
    from assms(2) show False
    proof
      assume "r = []"
      with n have "60 \<notin> set ((c # m) @ r)" by auto
      moreover from l obtain ts
        where "(c # m) @ r = ts @ ascii '' <'' @ u @ ascii ''> '' @ rest"
        by (auto simp: speaker_line_def)
      then have "set ((c # m) @ r) = set (ts @ ascii '' <'' @ u @ ascii ''> '' @ rest)"
        by (rule arg_cong)
      then have "60 \<in> set ((c # m) @ r)"
        by simp
      ultimately show False by blast
    next
      assume "\<exists>u rest. speaker_line decimal r u rest"
      then obtain u' rest' where "speaker_line decimal r u' rest'" by blast
      then have "length (takeWhile (\<lambda>x. x \<noteq> 60) r) = 20"
        by (rule speaker_line_bracket)
      with twenty show False by simp
    qed
  qed
  with Cons show ?case by simp
qed

lemma transcript_line:
  "entry_ok decimal (ts, u, msg) \<Longrightarrow>
   speaker_line decimal (transcript ((ts, u, msg) # es)) u
     (msg @ ascii ''\<newline>'' @ transcript es)"
proof -
  assume ok: "entry_ok decimal (ts, u, msg)"
  then obtain name where "u = 64 # name" "name \<noteq> []"
    by (cases u) (auto simp: entry_ok_def)
  with ok show ?thesis
    unfolding speaker_line_def entry_ok_def by auto
qed

lemma findall_transcript:
  "\<forall>e \<in> set es. entry_ok decimal e \<Longrightarrow>
   findall decimal (transcript es) = map (\<lambda>(ts, u, msg). u) es"
proof (induction es)
  case Nil
  then show ?case by simp
next
  case (Cons e es)
  obtain ts u msg where e: "e = (ts, u, msg)" by (cases e)
  with Cons.prems have ok: "entry_ok decimal (ts, u, msg)" by simp
  have next_line:
    "transcript es = [] \<or> (\<exists>u rest. speaker_line decimal (transcript es) u rest)"
  proof (cases es)
    case Nil
    then show ?thesis by simp
  next
    case (Cons e' es')
    obtain ts' u' msg' where "e' = (ts', u', msg')" by (cases e')
    with Cons Cons.prems transcript_line [of decimal ts' u' msg' es'] show ?thesis
      by auto
  qed
  from ok have "60 \<notin> set (msg @ ascii ''\<newline>'')"
    by (simp add: entry_ok_def)
  then have "findall decimal ((msg @ ascii ''\<newline>'') @ transcript es)
      = findall decimal (transcript es)"
    using next_line by (rule findall_skip)
  moreover have "findall decimal (transcript (e # es))
      = u # findall decimal (msg @ ascii ''\<newline>'' @ transcript es)"
    unfolding e by (rule findall_first) (rule transcript_line [OF ok])
  ultimately show ?case
    using Cons by (simp add: e)
qed

subsection \<open>What extraction returns\<close>

lemma three_lines:
  "sorted_list_of_set
     (set (findall sample_decimal
        (ascii ''2025-09-25 08:26:00 <@alice:server.tld> a\<newline>2025-09-25 08:26:10 <@alice:server.tld> b\<newline>2025-09-25 08:26:20 <@alice:server.tld> c\<newline>''))
      - ({mxid sample_plugin, meetbot_id (config sample_plugin)}
         \<union> set (ignored_participants (config sample_plugin))))
   = [ascii ''@alice:server.tld'']"
  by code_simp

lemma ignored_lines:
  "sorted_list_of_set
     (set (findall sample_decimal
        (ascii ''2025-09-25 08:26:00 <@zodbot:fedora.im> a\<newline>2025-09-25 08:26:10 <@meetbot:fedora.im> b\<newline>2025-09-25 08:26:20 <@carol:server.tld> c\<newline>''))
      - ({mxid sample_plugin, meetbot_id (config sample_plugin)}
         \<union> set (ignored_participants (config sample_plugin))))
   = [ascii ''@carol:server.tld'']"
  by code_simp

lemma arabic_indic_stamp:
  "sorted_list_of_set
     (set (findall sample_decimal
        ([1634, 1632, 1634, 1637, 45, 1632, 1641, 45, 1634, 1637, 32,
          1632, 1640, 58, 1634, 1638, 58, 1632, 1632] @ ascii '' <@dana:server.tld> hi''))
      - ({mxid sample_plugin, meetbot_id (config sample_plugin)}
         \<union> set (ignored_participants (config sample_plugin))))
   = [ascii ''@dana:server.tld'']"
  by code_simp

lemma swallowing_found:
  "sorted_list_of_set
     (set (findall sample_decimal swallowing_log)
      - ({mxid sample_plugin, meetbot_id (config sample_plugin)}
         \<union> set (ignored_participants (config sample_plugin))))
   = [ascii ''@a\<newline>2025-09-25 08:27:00 <@bob:s'']"
  by code_simp

lemma swallowing_line:
  "match_here sample_decimal (drop 24 swallowing_log) = Some (ascii ''@bob:s'', ascii ''hi\<newline>'')"
  by code_simp

text \<open>
  Claim C2, as the code has it. Extraction never fails: removing an identity that is not
  in the set changes nothing. Its result is sorted and free of duplicates, and it holds
  exactly the identities found by \<open>re.findall\<close>, without the bot's own identity, the
  announcing bot's and the configured exclusions. What is found are the identities of the
  successive occurrences of \<open>YYYY-MM-DD HH:MM:SS <@identity> \<close> met when the text is
  read from the left, anywhere in it, the identity being all the characters up to the
  next \<open>>\<close>, line breaks included, and the digits being the decimal digits of Unicode:
  \<^item> every identity found stands in such an occurrence;
  \<^item> the first occurrence of the text is found, and the search goes on behind it;
  \<^item> a text without an occurrence yields nothing;
  \<^item> an occurrence is found unless a match that was found begins before it and ends
    behind its start;
  \<^item> on a transcript written line by line from well-formed entries, the identities found
    are those of the lines, in order.
\<close>

theorem extract_usernames_leftmost:
  "decimal = unicode_decimal env \<Longrightarrow>
   extract_usernames self env doc =
     ([Log INFO ''Found {} unique participants: {}''
         [N (length (participants self env doc)), L (participants self env doc)]],
      Inr (participants self env doc))
   \<and> sorted (participants self env doc) \<and> distinct (participants self env doc)
   \<and> set (participants self env doc) =
       set (findall decimal doc)
       - ({mxid self, meetbot_id (config self)} \<union> set (ignored_participants (config self)))
   \<and> (\<forall>u \<in> set (findall decimal doc).
         \<exists>pre s rest. doc = pre @ s \<and> speaker_line decimal s u rest)
   \<and> (\<forall>pre s u rest.
         doc = pre @ s \<and> speaker_line decimal s u rest
         \<and> (\<forall>p1 p2 v r. doc = p1 @ p2 \<and> length p1 < length pre
               \<longrightarrow> \<not> speaker_line decimal p2 v r)
         \<longrightarrow> findall decimal doc = u # findall decimal rest)
   \<and> ((\<forall>p1 p2 v r. doc = p1 @ p2 \<longrightarrow> \<not> speaker_line decimal p2 v r)
        \<longrightarrow> findall decimal doc = [])
   \<and> (\<forall>pre s u rest.
         doc = pre @ s \<and> speaker_line decimal s u rest
         \<longrightarrow> u \<in> set (findall decimal doc)
             \<or> (\<exists>p1 p2 v r. doc = p1 @ p2 \<and> speaker_line decimal p2 v r
                   \<and> v \<in> set (findall decimal doc)
                   \<and> length p1 < length pre \<and> length pre < length doc - length r))
   \<and> (\<forall>es. doc = transcript es \<and> (\<forall>e \<in> set es. entry_ok decimal e) \<longrightarrow>
          findall decimal doc = map (\<lambda>(ts, u, msg). u) es)"
proof -
  assume d: "decimal = unicode_decimal env"
  have result: "extract_usernames self env doc =
     ([Log INFO ''Found {} unique participants: {}''
         [N (length (participants self env doc)), L (participants self env doc)]],
      Inr (participants self env doc))"
    by (rule extract_usernames_result)
  have "finite (set (findall decimal doc)
       - ({mxid self, meetbot_id (config self)} \<union> set (ignored_participants (config self))))"
    by simp
  then have order: "sorted (participants self env doc)" "distinct (participants self env doc)"
    and members: "set (participants self env doc) =
       set (findall decimal doc)
       - ({mxid self, meetbot_id (config self)} \<union> set (ignored_participants (config self)))"
    unfolding participants_def d by simp_all
  have sound: "\<forall>u \<in> set (findall decimal doc).
      \<exists>pre s rest. doc = pre @ s \<and> speaker_line decimal s u rest"
    using findall_sound by blast
  have leftmost: "\<forall>pre s u rest.
      doc = pre @ s \<and> speaker_line decimal s u rest
      \<and> (\<forall>p1 p2 v r. doc = p1 @ p2 \<and> length p1 < length pre
            \<longrightarrow> \<not> speaker_line decimal p2 v r)
      \<longrightarrow> findall decimal doc = u # findall decimal rest"
  proof (intro allI impI)
    fix pre s u rest
    assume a: "doc = pre @ s \<and> speaker_line decimal s u rest
      \<and> (\<forall>p1 p2 v r. doc = p1 @ p2 \<and> length p1 < length pre
            \<longrightarrow> \<not> speaker_line decimal p2 v r)"
    have "findall decimal (pre @ s) = u # findall decimal rest"
    proof (rule findall_leftmost)
      from a show "speaker_line decimal s u rest" by simp
    next
      fix p1 p2 :: str
      assume "pre = p1 @ p2" and "p2 \<noteq> []"
      with a have "doc = p1 @ (p2 @ s)" and "length p1 < length pre" by auto
      with a have "\<forall>v r. \<not> speaker_line decimal (p2 @ s) v r" by blast
      then show "match_here decimal (p2 @ s) = None"
        by (simp add: match_here_None_iff)
    qed
    with a show "findall decimal doc = u # findall decimal rest" by simp
  qed
  have none: "(\<forall>p1 p2 v r. doc = p1 @ p2 \<longrightarrow> \<not> speaker_line decimal p2 v r)
      \<longrightarrow> findall decimal doc = []"
  proof
    assume a: "\<forall>p1 p2 v r. doc = p1 @ p2 \<longrightarrow> \<not> speaker_line decimal p2 v r"
    show "findall decimal doc = []"
    proof (rule findall_none)
      fix p1 p2 :: str
      assume "doc = p1 @ p2"
      with a have "\<forall>v r. \<not> speaker_line decimal p2 v r" by blast
      then show "match_here decimal p2 = None"
        by (simp add: match_here_None_iff)
    qed
  qed
  have complete: "\<forall>pre s u rest.
      doc = pre @ s \<and> speaker_line decimal s u rest
      \<longrightarrow> u \<in> set (findall decimal doc)
          \<or> (\<exists>p1 p2 v r. doc = p1 @ p2 \<and> speaker_line decimal p2 v r
                \<and> v \<in> set (findall decimal doc)
                \<and> length p1 < length pre \<and> length pre < length doc - length r)"
  proof (intro allI impI)
    fix pre s u rest
    assume "doc = pre @ s \<and> speaker_line decimal s u rest"
    then have "doc = pre @ s" and "speaker_line decimal s u rest" by simp_all
    then show "u \<in> set (findall decimal doc)
      \<or> (\<exists>p1 p2 v r. doc = p1 @ p2 \<and> speaker_line decimal p2 v r
            \<and> v \<in> set (findall decimal doc)
            \<and> length p1 < length pre \<and> length pre < length doc - length r)"
      by (rule findall_complete)
  qed
  have lines: "\<forall>es. doc = transcript es \<and> (\<forall>e \<in> set es. entry_ok decimal e) \<longrightarrow>
      findall decimal doc = map (\<lambda>(ts, u, msg). u) es"
    using findall_transcript by blast
  from result order members sound leftmost none complete lines show ?thesis
    by (intro conjI)
qed

theorem extract_usernames_leftmost_witness:
  "snd (extract_usernames sample_plugin (sample_env (ResponseText sample_log) None) sample_log)
     = Inr [ascii ''@alice:server.tld'', ascii ''@bob:server.tld'']
   \<and> snd (extract_usernames sample_plugin (sample_env (ResponseText sample_log) None)
       (ascii ''2025-09-25 08:26:00 <@alice:server.tld> a\<newline>2025-09-25 08:26:10 <@alice:server.tld> b\<newline>2025-09-25 08:26:20 <@alice:server.tld> c\<newline>''))
     = Inr [ascii ''@alice:server.tld'']
   \<and> snd (extract_usernames sample_plugin (sample_env (ResponseText sample_log) None)
       (ascii ''2025-09-25 08:26:00 <@zodbot:fedora.im> a\<newline>2025-09-25 08:26:10 <@meetbot:fedora.im> b\<newline>2025-09-25 08:26:20 <@carol:server.tld> c\<newline>''))
     = Inr [ascii ''@carol:server.tld'']
   \<and> snd (extract_usernames sample_plugin (sample_env (ResponseText sample_log) None)
       ([1634, 1632, 1634, 1637, 45, 1632, 1641, 45, 1634, 1637, 32,
         1632, 1640, 58, 1634, 1638, 58, 1632, 1632] @ ascii '' <@dana:server.tld> hi''))
     = Inr [ascii ''@dana:server.tld'']"
proof -
  have d: "sample_decimal = unicode_decimal (sample_env (ResponseText sample_log) None)"
    by (simp add: sample_env_fields)
  note t = extract_usernames_leftmost [OF d, of sample_plugin, THEN conjunct1]
  show ?thesis
    unfolding t participants_def d [symmetric] snd_conv
    using sample_found three_lines ignored_lines arabic_indic_stamp
    by (intro conjI) (simp_all only:)
qed

text \<open>
  The second line of this transcript is a speaker line of \<open>@bob:s\<close>, and yet \<open>@bob:s\<close> is
  not returned: the first line has no \<open>>\<close>, so that the identity matched there runs
  over the line break up to the \<open>>\<close> of the second line.
\<close>

theorem speaker_line_swallowed:
  "speaker_line sample_decimal (drop 24 swallowing_log) (ascii ''@bob:s'') (ascii ''hi\<newline>'')
   \<and> snd (extract_usernames sample_plugin (sample_env (ResponseText swallowing_log) None)
        swallowing_log)
     = Inr [ascii ''@a\<newline>2025-09-25 08:27:00 <@bob:s'']"
proof -
  have "speaker_line sample_decimal (drop 24 swallowing_log) (ascii ''@bob:s'') (ascii ''hi\<newline>'')"
    unfolding match_here_iff [symmetric] by (rule swallowing_line)
  moreover have "snd (extract_usernames sample_plugin
      (sample_env (ResponseText swallowing_log) None) swallowing_log)
     = Inr [ascii ''@a\<newline>2025-09-25 08:27:00 <@bob:s'']"
    unfolding extract_usernames_result participants_def sample_env_fields snd_conv
    using swallowing_found by (simp only:)
  ultimately show ?thesis by (rule conjI)
qed

section \<open>The configuration update\<close>

lemma map_of_copied:
  "map_of (fold (\<lambda>(k, v) m. AList.update k v m) g acc) = map_of acc ++ map_of (rev g)"
proof (induction g arbitrary: acc)
  case Nil
  then show ?case by simp
next
  case (Cons x g)
  obtain k v where x: "x = (k, v)" by (cases x)
  have "map_of (fold (\<lambda>(k, v) m. AList.update k v m) (x # g) acc)
      = map_of (AList.update k v acc) ++ map_of (rev g)"
    by (simp add: x Cons.IH)
  also have "\<dots> = map_of acc ++ map_of (rev (x # g))"
    by (simp add: x update_conv' map_add_def fun_eq_iff split: option.splits)
  finally show ?case .
qed

lemma copied_entry:
  assumes "map_of g k \<noteq> None"
  shows "\<exists>v. map_of (fold (\<lambda>(k, v) m. AList.update k v m) g []) k = Some v \<and> (k, v) \<in> set g"
proof -
  from assms have "map_of (rev g) k \<noteq> None"
    by (simp add: map_of_eq_None_iff)
  then obtain v where v: "map_of (rev g) k = Some v" by auto
  then have "(k, v) \<in> set g"
    using map_of_SomeD by fastforce
  with v show ?thesis
    by (simp add: map_of_copied)
qed

lemma update_absent: "map_of al k = None \<Longrightarrow> AList.update k v al = al @ [(k, v)]"
  by (induction al) (auto split: if_splits)

lemma copied_filled:
  assumes "map_of gs k = None"
  shows "map_of (fold (\<lambda>(k, v) m. AList.update k v m) (AList.update k v gs) []) k = Some v"
  using assms by (simp add: update_absent update_conv')

lemma copy_other: "key \<noteq> k \<Longrightarrow> map_of (copy key source base) k = map_of base k"
  by (simp add: copy_def update_conv')

lemma copies_keep_gemini:
  "map_of (copy (ascii ''meetings_directory'') s1
            (copy (ascii ''ignored_participants'') s2 (copy (ascii ''meetbot_id'') s3 base)))
     (ascii ''gemini'')
   = map_of base (ascii ''gemini'')"
  by (simp add: copy_other)

text \<open>
  Claim C10, as the code has it. Let the \<open>gemini\<close> section of the base be a mapping with
  a \<open>model\<close> key, and let the stored \<open>gemini\<close> entry, if there is one, be a mapping. Then
  the update succeeds and the updated configuration has a \<open>gemini\<close> section with a
  \<open>model\<close> key. Without a stored section the entry is the one of the base. If the stored
  section lacks the key, it receives the entry of the base before it is copied, and that
  is the entry of the updated configuration. If the stored section has the key, its own
  entry is copied as it is, a null entry included.
\<close>

theorem do_update_fills_model:
  assumes "map_of base (ascii ''gemini'') = Some (Map gb)"
    and "map_of gb (ascii ''model'') = Some m"
    and "\<not> contains self (ascii ''gemini'')
      \<or> (\<exists>gs. map_of self (ascii ''gemini'') = Some (Map gs))"
  shows "\<exists>self' base' g v. do_update self base = Inr (self', base')
     \<and> map_of base' (ascii ''gemini'') = Some (Map g) \<and> map_of g (ascii ''model'') = Some v
     \<and> (\<not> contains self (ascii ''gemini'') \<longrightarrow> g = gb \<and> v = m)
     \<and> (\<forall>gs. map_of self (ascii ''gemini'') = Some (Map gs)
            \<and> map_of gs (ascii ''model'') = None \<longrightarrow>
          v = m
          \<and> map_of self' (ascii ''gemini'') = Some (Map (AList.update (ascii ''model'') m gs)))
     \<and> (\<forall>gs. map_of self (ascii ''gemini'') = Some (Map gs)
            \<and> map_of gs (ascii ''model'') \<noteq> None \<longrightarrow>
          self' = self \<and> (ascii ''model'', v) \<in> set gs)"
proof (cases "contains self (ascii ''gemini'')")
  case False
  then have "do_update self base =
      Inr (self, copy (ascii ''meetings_directory'') self
                   (copy (ascii ''ignored_participants'') self
                      (copy (ascii ''meetbot_id'') self base)))"
    by (simp add: do_update_def fill_model_def copy_dict_def)
  moreover from False have "\<nexists>gs. map_of self (ascii ''gemini'') = Some (Map gs)"
    by (auto simp: contains_def getitem_def)
  ultimately show ?thesis
    using assms(1,2) False copies_keep_gemini [of self self self base] by auto
next
  case True
  with assms(3) obtain gs where gs: "map_of self (ascii ''gemini'') = Some (Map gs)"
    by blast
  then have get: "getitem self (ascii ''gemini'') = Map gs"
    by (simp add: getitem_def)
  from assms(1) have base: "getitem base (ascii ''gemini'') = Map gb"
    by (simp add: getitem_def)
  show ?thesis
  proof (cases "map_of gs (ascii ''model'')")
    case None
    let ?sec = "Map (AList.update (ascii ''model'') m gs)"
    let ?self = "AList.update (ascii ''gemini'') ?sec self"
    let ?g = "fold (\<lambda>(k, v) m. AList.update k v m) (AList.update (ascii ''model'') m gs) []"
    from True None get base assms(2) have fill: "fill_model self base = Inr ?self"
      by (simp add: fill_model_def)
    have sec: "map_of ?self (ascii ''gemini'') = Some ?sec"
      by (simp add: update_conv')
    then have "getitem ?self (ascii ''gemini'') = ?sec" "contains ?self (ascii ''gemini'')"
      by (simp_all add: getitem_def contains_def)
    then have "copy_dict (ascii ''gemini'') ?self base
        = Inr (AList.update (ascii ''gemini'') (Map ?g) base)"
      by (simp add: copy_dict_def)
    with fill have "do_update self base =
        Inr (?self, copy (ascii ''meetings_directory'') ?self
                      (copy (ascii ''ignored_participants'') ?self
                         (copy (ascii ''meetbot_id'') ?self
                            (AList.update (ascii ''gemini'') (Map ?g) base))))"
      by (simp add: do_update_def)
    moreover have "map_of (copy (ascii ''meetings_directory'') ?self
                      (copy (ascii ''ignored_participants'') ?self
                         (copy (ascii ''meetbot_id'') ?self
                            (AList.update (ascii ''gemini'') (Map ?g) base))))
          (ascii ''gemini'') = Some (Map ?g)"
      unfolding copies_keep_gemini by (simp add: update_conv')
    moreover have "map_of ?g (ascii ''model'') = Some m"
      using None by (rule copied_filled)
    ultimately show ?thesis
      using True gs None sec by auto
  next
    case (Some v0)
    let ?g = "fold (\<lambda>(k, v) m. AList.update k v m) gs []"
    from True Some get have fill: "fill_model self base = Inr self"
      by (simp add: fill_model_def)
    from True get have "copy_dict (ascii ''gemini'') self base
        = Inr (AList.update (ascii ''gemini'') (Map ?g) base)"
      by (simp add: copy_dict_def)
    with fill have "do_update self base =
        Inr (self, copy (ascii ''meetings_directory'') self
                     (copy (ascii ''ignored_participants'') self
                        (copy (ascii ''meetbot_id'') self
                           (AList.update (ascii ''gemini'') (Map ?g) base))))"
      by (simp add: do_update_def)
    moreover have "map_of (copy (ascii ''meetings_directory'') self
                     (copy (ascii ''ignored_participants'') self
                        (copy (ascii ''meetbot_id'') self
                           (AList.update (ascii ''gemini'') (Map ?g) base))))
          (ascii ''gemini'') = Some (Map ?g)"
      unfolding copies_keep_gemini by (simp add: update_conv')
    moreover from Some obtain v where "map_of ?g (ascii ''model'') = Some v"
      and "(ascii ''model'', v) \<in> set gs"
      using copied_entry [of gs "ascii ''model''"] by auto
    ultimately show ?thesis
      using True gs Some by auto
  qed
qed

theorem do_update_fills_model_witness:
  "do_update stored_config base_config =
     Inr ([(ascii ''gemini'',
              Map [(ascii ''api_key'', Str (ascii ''secret'')),
                   (ascii ''model'', Str (ascii ''gemini-2.5-flash''))]),
           (ascii ''meetbot_id'', Str (ascii ''@zodbot:fedora.im'')),
           (ascii ''meetings_directory'', Str (ascii ''/data/minutes''))],
          [(ascii ''gemini'',
              Map [(ascii ''api_key'', Str (ascii ''secret'')),
                   (ascii ''model'', Str (ascii ''gemini-2.5-flash''))]),
           (ascii ''meetbot_id'', Str (ascii ''@zodbot:fedora.im'')),
           (ascii ''ignored_participants'', Seq []),
           (ascii ''meetings_directory'', Str (ascii ''/data/minutes''))])"
  using do_update_fills_model [of base_config
      "[(ascii ''api_key'', Str []), (ascii ''model'', Str (ascii ''gemini-2.5-flash''))]"
      "Str (ascii ''gemini-2.5-flash'')" stored_config]
  by (simp add: do_update_def fill_model_def copy_dict_def copy_def contains_def getitem_def
      stored_config_def base_config_def)

text \<open>
  A \<open>gemini\<close> section in the base is not enough. If it has no model, an empty stored
  configuration leaves the base as it is, without a model. And with a model in the base,
  a stored section whose model entry is null is copied as it is: the updated
  configuration then has the key, with no value.
\<close>

theorem do_update_model_missing_or_null:
  "map_of base_without_model (ascii ''gemini'') = Some (Map [(ascii ''api_key'', Str [])])
   \<and> do_update [] base_without_model = Inr ([], base_without_model)
   \<and> do_update
        [(ascii ''gemini'',
            Map [(ascii ''api_key'', Str (ascii ''secret'')), (ascii ''model'', Null)])]
        base_config =
       Inr ([(ascii ''gemini'',
                Map [(ascii ''api_key'', Str (ascii ''secret'')), (ascii ''model'', Null)])],
            [(ascii ''gemini'',
                Map [(ascii ''api_key'', Str (ascii ''secret'')), (ascii ''model'', Null)]),
             (ascii ''meetbot_id'', Str (ascii ''@meetbot:fedora.im'')),
             (ascii ''ignored_participants'', Seq []),
             (ascii ''meetings_directory'', Null)])"
  by (simp add: do_update_def fill_model_def copy_dict_def copy_def contains_def getitem_def
      base_config_def base_without_model_def)

lemma do_update_raises:
  "do_update stored_config base_without_model = Inl KeyError"
  "do_update [(ascii ''gemini'', Str (ascii ''flash''))] base_config = Inl TypeError"
  "do_update [(ascii ''gemini'', Str (ascii ''a model''))] base_config = Inl AttributeError"
  "do_update [(ascii ''gemini'', Scalar (ascii ''1''))] base_config = Inl TypeError"
  by (simp_all add: do_update_def fill_model_def copy_dict_def copy_def contains_def
      getitem_def stored_config_def base_config_def base_without_model_def
      sublist_code)

end
